theory Spec2Isabelle
  imports Main "HOL-Library.Log_Nat" "HOL-Library.Multiset" "HOL-Library.Char_ord"
    "HOL-Library.List_Lexorder"
begin

section \<open>JavaScript numbers\<close>

text \<open>
  The server (server/index.mjs) computes with JavaScript numbers, i.e. IEEE 754 binary64
  values.  A number is NaN, an infinity or a finite value; finite values are carried as the
  rational they denote.  Every arithmetic result is rounded to the nearest binary64 value
  (ties to even, gradual underflow below \<open>2\<^sup>-\<^sup>1\<^sup>0\<^sup>2\<^sup>2\<close>, overflow to infinity from
  \<open>2\<^sup>1\<^sup>0\<^sup>2\<^sup>4\<close>).  The sign of zero is not represented: no comparison of the code
  distinguishes \<open>-0\<close> from \<open>+0\<close>.
\<close>

datatype jsnum = NaN | Fin rat | PosInf | NegInf

definition pow2 :: "int \<Rightarrow> rat" where
  "pow2 e = (if 0 \<le> e then 2 ^ nat e else 1 / 2 ^ nat (- e))"

definition ilog2 :: "rat \<Rightarrow> int" where
  \<comment> \<open>\<open>\<lfloor>log\<^sub>2 x\<rfloor>\<close> for positive \<open>x\<close>\<close>
  "ilog2 x = (if 1 \<le> x then bitlen \<lfloor>x\<rfloor> - 1 else - bitlen (\<lceil>1 / x\<rceil> - 1))"

definition round_even :: "rat \<Rightarrow> int" where
  "round_even y =
     (let f = \<lfloor>y\<rfloor>; d = y - of_int f
      in if d < 1 / 2 then f else if 1 / 2 < d then f + 1
         else if even f then f else f + 1)"

definition rnd :: "rat \<Rightarrow> rat" where
  \<comment> \<open>nearest value with a 53-bit significand and an exponent of at least \<open>-1074\<close>\<close>
  "rnd x =
     (if x = 0 then 0
      else let e = max (ilog2 \<bar>x\<bar> - 52) (- 1074); s = pow2 e
           in of_int (round_even (x / s)) * s)"

definition dbl :: "rat \<Rightarrow> jsnum" where
  \<comment> \<open>the number a correctly rounded operation returns: a magnitude from \<open>2\<^sup>1\<^sup>0\<^sup>2\<^sup>4\<close>
      on is an infinity\<close>
  "dbl q =
     (let r = rnd q
      in if r = 0 \<or> ilog2 \<bar>r\<bar> < 1024 then Fin r else if 0 < r then PosInf else NegInf)"

fun js_lt :: "jsnum \<Rightarrow> jsnum \<Rightarrow> bool" where
  "js_lt NaN b = False"
| "js_lt a NaN = False"
| "js_lt (Fin a) (Fin b) = (a < b)"
| "js_lt (Fin a) PosInf = True"
| "js_lt (Fin a) NegInf = False"
| "js_lt PosInf b = False"
| "js_lt NegInf NegInf = False"
| "js_lt NegInf b = True"

fun js_le :: "jsnum \<Rightarrow> jsnum \<Rightarrow> bool" where
  "js_le NaN b = False"
| "js_le a NaN = False"
| "js_le (Fin a) (Fin b) = (a \<le> b)"
| "js_le (Fin a) PosInf = True"
| "js_le (Fin a) NegInf = False"
| "js_le PosInf PosInf = True"
| "js_le PosInf b = False"
| "js_le NegInf b = True"

definition js_gt :: "jsnum \<Rightarrow> jsnum \<Rightarrow> bool" where
  "js_gt a b = js_lt b a"

definition js_ge :: "jsnum \<Rightarrow> jsnum \<Rightarrow> bool" where
  "js_ge a b = js_le b a"

fun js_sub :: "jsnum \<Rightarrow> jsnum \<Rightarrow> jsnum" where
  "js_sub NaN b = NaN"
| "js_sub a NaN = NaN"
| "js_sub (Fin a) (Fin b) = dbl (a - b)"
| "js_sub (Fin a) PosInf = NegInf"
| "js_sub (Fin a) NegInf = PosInf"
| "js_sub PosInf PosInf = NaN"
| "js_sub PosInf b = PosInf"
| "js_sub NegInf NegInf = NaN"
| "js_sub NegInf b = NegInf"

definition js_is_neg :: "jsnum \<Rightarrow> bool" where
  "js_is_neg a = js_lt a (Fin 0)"

fun js_mul :: "jsnum \<Rightarrow> jsnum \<Rightarrow> jsnum" where
  "js_mul NaN b = NaN"
| "js_mul a NaN = NaN"
| "js_mul (Fin a) (Fin b) = dbl (a * b)"
| "js_mul a b =
     (if a = Fin 0 \<or> b = Fin 0 then NaN
      else if js_is_neg a = js_is_neg b then PosInf else NegInf)"

definition js_min :: "jsnum \<Rightarrow> jsnum \<Rightarrow> jsnum" where
  \<comment> \<open>\<open>Math.min(a, b)\<close>\<close>
  "js_min a b = (if a = NaN \<or> b = NaN then NaN else if js_lt b a then b else a)"

definition js_max :: "jsnum \<Rightarrow> jsnum \<Rightarrow> jsnum" where
  \<comment> \<open>\<open>Math.max(a, b)\<close>\<close>
  "js_max a b = (if a = NaN \<or> b = NaN then NaN else if js_lt a b then b else a)"

fun isFinite :: "jsnum \<Rightarrow> bool" where
  \<comment> \<open>\<open>Number.isFinite\<close>\<close>
  "isFinite (Fin a) = True"
| "isFinite a = False"


section \<open>Values received from the request\<close>

text \<open>
  \<open>JSON.parse\<close> yields null, booleans, numbers (finite, or an infinity for a literal
  beyond the binary64 range), strings, arrays and objects.  An object is the list of its own
  properties, each key once.  A thrown JavaScript error is carried by its message.
\<close>

datatype json =
    JNull
  | JBool bool
  | JNum jsnum
  | JStr string
  | JArr "json list"
  | JObj "(string \<times> json) list"

datatype exn = Thrown string

type_synonym bytes = string

text \<open>
  The multipart field \<open>redactions\<close> after \<open>JSON.parse(String(raw || '[]'))\<close>: the field is
  absent or empty (so the text parsed is \<open>[]\<close>), or its text is not JSON, or it parses.
\<close>

datatype redactions_field = Missing | Malformed | Parsed json

record rule =
  page :: jsnum
  x :: jsnum
  y :: jsnum
  width :: jsnum
  height :: jsnum


section \<open>PDF documents as seen through pdf-lib\<close>

text \<open>
  A page has a size and a sequence of drawing operations.  Pages of an uploaded document
  show text and other graphics; \<open>drawRectangle\<close> appends a black filled rectangle and
  \<open>drawImage\<close> an embedded JPEG.
\<close>

datatype content_op =
    ShowText string
  | Graphics string
  | FillRect jsnum jsnum jsnum jsnum
  | DrawImage bytes rat rat rat rat

record pdf_page =
  page_width :: rat
  page_height :: rat
  page_ops :: "content_op list"

type_synonym pdf_doc = "pdf_page list"

definition page_text :: "pdf_page \<Rightarrow> string" where
  \<comment> \<open>what text extraction returns for a page: the strings its text operators show\<close>
  "page_text p = concat (map (\<lambda>c. case c of ShowText s \<Rightarrow> s | _ \<Rightarrow> []) (page_ops p))"


section \<open>The host: environment, external programs and libraries\<close>

text \<open>
  Everything the handlers obtain from outside the repository is a field of the host:
  environment variables, \<open>fs.access\<close>, the conversion \<open>Number(v)\<close> of strings, arrays and
  objects, the temporary-directory name picked by \<open>mkdtemp\<close>, the parser and serialiser of
  pdf-lib, the \<open>pdftoppm\<close> process (the files it writes into the working directory and
  whether it exits with an error) and the JPEG header reader of \<open>embedJpg\<close>.
\<close>

record host =
  env_QPDF_PATH :: "string option"
  env_LIBREOFFICE_PATH :: "string option"
  env_PDFTOPPM_PATH :: "string option"
  access_X_OK :: "string \<Rightarrow> bool"
  coerce_Number :: "json \<Rightarrow> exn + jsnum"
  os_tmpdir :: string
  mkdtemp_suffix :: string
  pdf_load :: "bytes \<Rightarrow> exn + pdf_doc"
  pdf_save :: "pdf_doc \<Rightarrow> bytes"
  exec_pdftoppm :: "string \<Rightarrow> bytes \<Rightarrow> (string \<times> bytes) list \<times> exn option"
  embedJpg :: "bytes \<Rightarrow> exn + nat \<times> nat"


section \<open>Binary resolution and the health endpoint\<close>

definition findBinary :: "host \<Rightarrow> string list \<Rightarrow> string option" where
  "findBinary h candidates = find (access_X_OK h) candidates"

definition env_candidate :: "string option \<Rightarrow> string list" where
  \<comment> \<open>\<open>[process.env.V].filter(Boolean)\<close>: an unset or empty variable is no candidate\<close>
  "env_candidate v = (case v of None \<Rightarrow> [] | Some s \<Rightarrow> if s = [] then [] else [s])"

definition resolveQpdfBinary :: "host \<Rightarrow> string option" where
  "resolveQpdfBinary h =
     findBinary h (env_candidate (env_QPDF_PATH h) @
       [''qpdf'', ''C:/Program Files/qpdf/bin/qpdf.exe'',
        ''C:/Program Files (x86)/qpdf/bin/qpdf.exe''])"

definition resolveLibreOfficeBinary :: "host \<Rightarrow> string option" where
  "resolveLibreOfficeBinary h =
     findBinary h (env_candidate (env_LIBREOFFICE_PATH h) @
       [''soffice'', ''C:/Program Files/LibreOffice/program/soffice.exe'',
        ''C:/Program Files (x86)/LibreOffice/program/soffice.exe''])"

definition resolvePdftoppmBinary :: "host \<Rightarrow> string option" where
  "resolvePdftoppmBinary h =
     findBinary h (env_candidate (env_PDFTOPPM_PATH h) @
       [''pdftoppm'', ''/usr/bin/pdftoppm'', ''C:/Program Files/poppler/bin/pdftoppm.exe''])"

record health_binaries =
  hb_qpdf :: bool
  hb_libreoffice :: bool
  hb_pdftoppm :: bool

record health_response =
  ok :: bool
  binaries :: health_binaries

definition health :: "host \<Rightarrow> health_response" where
  \<comment> \<open>\<open>GET /api/health\<close>\<close>
  "health h =
     (let qpdf = resolveQpdfBinary h;
          soffice = resolveLibreOfficeBinary h;
          pdftoppm = resolvePdftoppmBinary h
      in \<lparr>ok = True,
          binaries = \<lparr>hb_qpdf = (qpdf \<noteq> None), hb_libreoffice = (soffice \<noteq> None),
                      hb_pdftoppm = (pdftoppm \<noteq> None)\<rparr>\<rparr>)"


section \<open>parseRedactions\<close>

definition get_prop :: "json \<Rightarrow> string \<Rightarrow> exn + json option" where
  \<comment> \<open>\<open>entry.key\<close>: a TypeError on null, the own property of an object, undefined otherwise\<close>
  "get_prop entry key =
     (case entry of
        JNull \<Rightarrow> Inl (Thrown ''Cannot read properties of null'')
      | JObj kvs \<Rightarrow> Inr (map_of kvs key)
      | _ \<Rightarrow> Inr None)"

definition Number :: "host \<Rightarrow> json option \<Rightarrow> exn + jsnum" where
  \<comment> \<open>\<open>Number(v)\<close>; \<open>None\<close> is undefined\<close>
  "Number h v =
     (case v of
        None \<Rightarrow> Inr NaN
      | Some JNull \<Rightarrow> Inr (Fin 0)
      | Some (JBool b) \<Rightarrow> Inr (Fin (if b then 1 else 0))
      | Some (JNum n) \<Rightarrow> Inr n
      | Some other \<Rightarrow> coerce_Number h other)"

definition number_field :: "host \<Rightarrow> json \<Rightarrow> string \<Rightarrow> exn + jsnum" where
  \<comment> \<open>\<open>Number(entry.key)\<close>\<close>
  "number_field h entry key =
     (case get_prop entry key of Inl e \<Rightarrow> Inl e | Inr v \<Rightarrow> Number h v)"

definition to_rule :: "host \<Rightarrow> json \<Rightarrow> exn + rule" where
  \<comment> \<open>the callback of \<open>parsed.map\<close>\<close>
  "to_rule h entry =
     (case number_field h entry ''page'' of Inl e \<Rightarrow> Inl e | Inr p \<Rightarrow>
     (case number_field h entry ''x'' of Inl e \<Rightarrow> Inl e | Inr vx \<Rightarrow>
     (case number_field h entry ''y'' of Inl e \<Rightarrow> Inl e | Inr vy \<Rightarrow>
     (case number_field h entry ''width'' of Inl e \<Rightarrow> Inl e | Inr w \<Rightarrow>
     (case number_field h entry ''height'' of Inl e \<Rightarrow> Inl e | Inr ht \<Rightarrow>
        Inr \<lparr>page = p, x = vx, y = vy, width = w, height = ht\<rparr>)))))"

fun map_entries :: "host \<Rightarrow> json list \<Rightarrow> exn + rule list" where
  "map_entries h [] = Inr []"
| "map_entries h (entry # rest) =
     (case to_rule h entry of Inl e \<Rightarrow> Inl e | Inr r \<Rightarrow>
     (case map_entries h rest of Inl e \<Rightarrow> Inl e | Inr rs \<Rightarrow> Inr (r # rs)))"

definition keep_entry :: "rule \<Rightarrow> bool" where
  \<comment> \<open>the callback of \<open>.filter\<close>\<close>
  "keep_entry entry =
     (isFinite (page entry) \<and> isFinite (x entry) \<and> isFinite (y entry)
      \<and> isFinite (width entry) \<and> isFinite (height entry)
      \<and> js_ge (page entry) (Fin 1)
      \<and> js_ge (x entry) (Fin 0)
      \<and> js_ge (y entry) (Fin 0)
      \<and> js_gt (width entry) (Fin 0)
      \<and> js_gt (height entry) (Fin 0))"

definition parseRedactions :: "host \<Rightarrow> redactions_field \<Rightarrow> exn + rule list" where
  "parseRedactions h raw =
     (case raw of
        Malformed \<Rightarrow> Inr []
      | Missing \<Rightarrow> Inr []
      | Parsed (JArr entries) \<Rightarrow>
          (case map_entries h entries of Inl e \<Rightarrow> Inl e | Inr rs \<Rightarrow> Inr (filter keep_entry rs))
      | Parsed other \<Rightarrow> Inr [])"

section \<open>Drawing the cover rectangles\<close>

definition getPageCount :: "pdf_doc \<Rightarrow> jsnum" where
  "getPageCount doc = Fin (of_nat (length doc))"

definition getPage :: "pdf_doc \<Rightarrow> jsnum \<Rightarrow> exn + nat option" where
  \<comment> \<open>pdf-lib: the index must be a number within the page range, then \<open>pages[index]\<close>;
      the result is the slot of the page object, or undefined (\<open>None\<close>) when the index
      is not a whole number\<close>
  "getPage doc index =
     (case index of
        Fin i \<Rightarrow>
          if i < 0 \<or> max 0 (of_nat (length doc) - 1) < i
          then Inl (Thrown ''index is out of range'')
          else if of_int \<lfloor>i\<rfloor> = i \<and> nat \<lfloor>i\<rfloor> < length doc then Inr (Some (nat \<lfloor>i\<rfloor>))
          else Inr None
      | _ \<Rightarrow> Inl (Thrown ''index is out of range''))"

definition drawRectangle ::
  "pdf_page \<Rightarrow> jsnum \<Rightarrow> jsnum \<Rightarrow> jsnum \<Rightarrow> jsnum \<Rightarrow> pdf_page" where
  \<comment> \<open>\<open>page.drawRectangle({x, y, width, height, color: rgb(0, 0, 0)})\<close>\<close>
  "drawRectangle pg rx ry rw rh = pg\<lparr>page_ops := page_ops pg @ [FillRect rx ry rw rh]\<rparr>"

definition draw_cover :: "pdf_page \<Rightarrow> rule \<Rightarrow> pdf_page" where
  \<comment> \<open>the callback of \<open>redactions.forEach\<close> from \<open>page.getSize()\<close> on\<close>
  "draw_cover pg entry =
     (let w = Fin (page_width pg);
          h = Fin (page_height pg);
          rectX = js_mul (x entry) w;
          rectWidth = js_min (js_sub w rectX) (js_mul (width entry) w);
          rectHeight = js_min h (js_mul (height entry) h);
          topOriginY = js_mul (y entry) h;
          rectY = js_max (Fin 0) (js_sub (js_sub h topOriginY) rectHeight)
      in drawRectangle pg rectX rectY (js_max (Fin 1) rectWidth) (js_max (Fin 1) rectHeight))"

definition apply_rule :: "pdf_doc \<Rightarrow> rule \<Rightarrow> exn + pdf_doc" where
  \<comment> \<open>the callback of \<open>redactions.forEach\<close>, on the document \<open>source\<close>: the page guard
      and the page lookup; drawing changes the page object in its slot\<close>
  "apply_rule source entry =
     (let index = js_sub (page entry) (Fin 1)
      in if js_lt index (Fin 0) \<or> js_ge index (getPageCount source) then Inr source
         else
           (case getPage source index of
              Inl e \<Rightarrow> Inl e
            | Inr None \<Rightarrow> Inl (Thrown ''Cannot read properties of undefined'')
            | Inr (Some slot) \<Rightarrow> Inr (source[slot := draw_cover (source ! slot) entry])))"

fun apply_rules :: "pdf_doc \<Rightarrow> rule list \<Rightarrow> exn + pdf_doc" where
  \<comment> \<open>\<open>redactions.forEach\<close>: a throwing callback ends the loop\<close>
  "apply_rules source [] = Inr source"
| "apply_rules source (entry # rest) =
     (case apply_rule source entry of
        Inl e \<Rightarrow> Inl e
      | Inr staged \<Rightarrow> apply_rules staged rest)"


section \<open>The rasterizer's files: filter and sort\<close>

definition is_digit :: "char \<Rightarrow> bool" where
  "is_digit c = (c \<in> set ''0123456789'')"

definition upcase :: "char \<Rightarrow> char" where
  \<comment> \<open>the upper-case partner of the letters that occur in the file-name pattern\<close>
  "upcase c =
     (if c = CHR ''r'' then CHR ''R'' else if c = CHR ''e'' then CHR ''E''
      else if c = CHR ''d'' then CHR ''D'' else if c = CHR ''a'' then CHR ''A''
      else if c = CHR ''c'' then CHR ''C'' else if c = CHR ''t'' then CHR ''T''
      else if c = CHR ''p'' then CHR ''P'' else if c = CHR ''g'' then CHR ''G''
      else if c = CHR ''j'' then CHR ''J'' else c)"

fun strip_ci :: "string \<Rightarrow> string \<Rightarrow> string option" where
  \<comment> \<open>match a literal at the start of a name, ignoring case; the rest of the name\<close>
  "strip_ci [] name = Some name"
| "strip_ci (p # ps) [] = None"
| "strip_ci (p # ps) (c # cs) = (if c = p \<or> c = upcase p then strip_ci ps cs else None)"

definition is_raster_name :: "string \<Rightarrow> bool" where
  \<comment> \<open>\<open>/^redacted-page-\d+\.jpg$/i.test(name)\<close>\<close>
  "is_raster_name name =
     (case strip_ci ''redacted-page-'' name of
        None \<Rightarrow> False
      | Some rest \<Rightarrow>
          takeWhile is_digit rest \<noteq> [] \<and> strip_ci ''.jpg'' (dropWhile is_digit rest) = Some [])"

definition first_digits :: "string \<Rightarrow> string" where
  \<comment> \<open>\<open>name.match(/(\d+)/)?.[0]\<close>: the leftmost run of digits, empty when there is none\<close>
  "first_digits name = takeWhile is_digit (dropWhile (\<lambda>c. \<not> is_digit c) name)"

definition digit_val :: "char \<Rightarrow> nat" where
  \<comment> \<open>the value of a decimal digit: its code above the code of \<open>0\<close>\<close>
  "digit_val c = of_char c - of_char CHR ''0''"

definition dec_val :: "string \<Rightarrow> nat" where
  "dec_val ds = foldl (\<lambda>n c. 10 * n + digit_val c) 0 ds"

definition page_number :: "string \<Rightarrow> nat" where
  \<comment> \<open>the page number written in a file name\<close>
  "page_number name = dec_val (first_digits name)"

definition name_Number :: "string \<Rightarrow> jsnum" where
  \<comment> \<open>\<open>Number(name.match(/(\d+)/)?.[0] || 0)\<close>\<close>
  "name_Number name =
     (if first_digits name = [] then Fin 0 else dbl (of_nat (dec_val (first_digits name))))"

definition compare_names :: "string \<Rightarrow> string \<Rightarrow> jsnum" where
  \<comment> \<open>the comparator \<open>(a, b) => numA - numB\<close>\<close>
  "compare_names a b = js_sub (name_Number a) (name_Number b)"

fun js_insert :: "('a \<Rightarrow> 'a \<Rightarrow> jsnum) \<Rightarrow> 'a \<Rightarrow> 'a list \<Rightarrow> 'a list" where
  "js_insert cmp a [] = [a]"
| "js_insert cmp a (b # bs) =
     (if js_gt (cmp a b) (Fin 0) then b # js_insert cmp a bs else a # b # bs)"

definition js_sort :: "('a \<Rightarrow> 'a \<Rightarrow> jsnum) \<Rightarrow> 'a list \<Rightarrow> 'a list" where
  \<comment> \<open>\<open>Array.prototype.sort(cmp)\<close>: stable; a comparator result that is not a positive
      number (zero, negative, NaN) leaves the earlier element first\<close>
  "js_sort cmp xs = foldr (js_insert cmp) xs []"

definition generated_names :: "string list \<Rightarrow> string list" where
  \<comment> \<open>\<open>generated\<close>, from the names returned by \<open>readdir(tempDir)\<close>\<close>
  "generated_names names = js_sort compare_names (filter is_raster_name names)"


section \<open>The file system\<close>

text \<open>
  A directory is the list of its entries (name and content, each name once); the file
  system maps the path of a directory to it.  \<open>readdir\<close> reports the names of a directory
  sorted by their bytes, as the directory scan of Node's runtime library returns them.
  Writing to and removing from a freshly made directory is taken to succeed.
\<close>

type_synonym dir = "(string \<times> bytes) list"

type_synonym fs = "string \<Rightarrow> dir option"

fun write_entry :: "string \<Rightarrow> bytes \<Rightarrow> dir \<Rightarrow> dir" where
  "write_entry name b [] = [(name, b)]"
| "write_entry name b ((n, c) # es) =
     (if n = name then (name, b) # es else (n, c) # write_entry name b es)"

definition mkdtemp :: "host \<Rightarrow> fs \<Rightarrow> exn + string \<times> fs" where
  \<comment> \<open>\<open>mkdtemp(path.join(os.tmpdir(), 'pdf-toolkit-'))\<close>\<close>
  "mkdtemp h fsys =
     (let d = os_tmpdir h @ ''/pdf-toolkit-'' @ mkdtemp_suffix h
      in if fsys d \<noteq> None then Inl (Thrown ''EEXIST'') else Inr (d, fsys(d \<mapsto> [])))"

definition writeFile :: "string \<Rightarrow> string \<Rightarrow> bytes \<Rightarrow> fs \<Rightarrow> fs" where
  "writeFile d name b fsys =
     (case fsys d of None \<Rightarrow> fsys | Some es \<Rightarrow> fsys(d \<mapsto> write_entry name b es))"

definition readdir :: "string \<Rightarrow> fs \<Rightarrow> string list" where
  \<comment> \<open>the names in the directory, in ascending byte order\<close>
  "readdir d fsys = (case fsys d of None \<Rightarrow> [] | Some es \<Rightarrow> sort (map fst es))"

definition readFile :: "string \<Rightarrow> string \<Rightarrow> fs \<Rightarrow> exn + bytes" where
  "readFile d name fsys =
     (case fsys d of
        None \<Rightarrow> Inl (Thrown ''ENOENT'')
      | Some es \<Rightarrow> (case map_of es name of None \<Rightarrow> Inl (Thrown ''ENOENT'') | Some b \<Rightarrow> Inr b))"

definition rm :: "string \<Rightarrow> fs \<Rightarrow> fs" where
  \<comment> \<open>\<open>rm(tempDir, { recursive: true, force: true })\<close>\<close>
  "rm d fsys = fsys(d := None)"


section \<open>POST /api/redact-pdf\<close>

datatype body = ErrorJson string | PdfBytes bytes

datatype outcome =
    Response nat body
  | Unhandled exn

record request =
  req_file :: "bytes option"
  req_redactions :: redactions_field

definition image_page :: "bytes \<Rightarrow> nat \<Rightarrow> nat \<Rightarrow> pdf_page" where
  \<comment> \<open>\<open>out.addPage([embedded.width, embedded.height])\<close>, then
      \<open>page.drawImage(embedded, { x: 0, y: 0, width: embedded.width, height: embedded.height })\<close>\<close>
  "image_page imageBytes w ht =
     \<lparr>page_width = of_nat w, page_height = of_nat ht,
      page_ops = [DrawImage imageBytes 0 0 (of_nat w) (of_nat ht)]\<rparr>"

fun embed_pages :: "host \<Rightarrow> string \<Rightarrow> fs \<Rightarrow> string list \<Rightarrow> pdf_doc \<Rightarrow> exn + pdf_doc" where
  \<comment> \<open>the loop \<open>for (const imageName of generated)\<close> on the document \<open>out\<close>\<close>
  "embed_pages h tempDir fsys [] out = Inr out"
| "embed_pages h tempDir fsys (imageName # rest) out =
     (case readFile tempDir imageName fsys of
        Inl e \<Rightarrow> Inl e
      | Inr imageBytes \<Rightarrow>
          (case embedJpg h imageBytes of
             Inl e \<Rightarrow> Inl e
           | Inr (w, ht) \<Rightarrow>
               embed_pages h tempDir fsys rest (out @ [image_page imageBytes w ht])))"

definition staged_bytes :: "host \<Rightarrow> bytes \<Rightarrow> rule list \<Rightarrow> exn + bytes" where
  \<comment> \<open>load, draw the rectangles, \<open>source.save()\<close>\<close>
  "staged_bytes h buffer redactions =
     (case pdf_load h buffer of
        Inl e \<Rightarrow> Inl e
      | Inr source \<Rightarrow>
          (case apply_rules source redactions of
             Inl e \<Rightarrow> Inl e
           | Inr staged \<Rightarrow> Inr (pdf_save h staged)))"

definition rasterize :: "host \<Rightarrow> string \<Rightarrow> string \<Rightarrow> bytes \<Rightarrow> fs \<Rightarrow> exn option \<times> fs" where
  \<comment> \<open>write the stage file, run \<open>pdftoppm -jpeg -r 220 stagePath imagePrefix\<close>\<close>
  "rasterize h pdftoppm tempDir stage fsys =
     (let fs1 = writeFile tempDir ''stage-redacted.pdf'' stage fsys;
          (files, failure) = exec_pdftoppm h pdftoppm stage
      in (failure, fold (\<lambda>(n, b). writeFile tempDir n b) files fs1))"

definition try_block ::
  "host \<Rightarrow> string \<Rightarrow> string \<Rightarrow> bytes \<Rightarrow> rule list \<Rightarrow> fs \<Rightarrow> (exn + outcome) \<times> fs" where
  \<comment> \<open>the body of \<open>try\<close>: \<open>Inl\<close> is a thrown error, \<open>Inr\<close> a response that was sent\<close>
  "try_block h pdftoppm tempDir buffer redactions fsys =
     (case staged_bytes h buffer redactions of
        Inl e \<Rightarrow> (Inl e, fsys)
      | Inr stage \<Rightarrow>
          (case rasterize h pdftoppm tempDir stage fsys of
             (Some e, fs2) \<Rightarrow> (Inl e, fs2)
           | (None, fs2) \<Rightarrow>
               (let generated = generated_names (readdir tempDir fs2)
                in if generated = []
                   then (Inr (Response 500
                           (ErrorJson ''No rasterized pages were generated for redaction output.'')),
                         fs2)
                   else
                     (case embed_pages h tempDir fs2 generated [] of
                        Inl e \<Rightarrow> (Inl e, fs2)
                      | Inr out \<Rightarrow> (Inr (Response 200 (PdfBytes (pdf_save h out))), fs2)))))"

definition redact_pdf :: "host \<Rightarrow> fs \<Rightarrow> request \<Rightarrow> outcome \<times> fs" where
  \<comment> \<open>the handler; \<open>catch\<close> answers 500 with the error's message, \<open>finally\<close> removes the
      directory; an error thrown outside \<open>try\<close> is not handled\<close>
  "redact_pdf h fsys req =
     (case resolvePdftoppmBinary h of
        None \<Rightarrow>
          (Response 501
             (ErrorJson ''pdftoppm binary not found. Install poppler-utils or set PDFTOPPM_PATH.''),
           fsys)
      | Some pdftoppm \<Rightarrow>
          (case parseRedactions h (req_redactions req) of
             Inl e \<Rightarrow> (Unhandled e, fsys)
           | Inr redactions \<Rightarrow>
               (case req_file req of
                  None \<Rightarrow> (Response 400 (ErrorJson ''file and redactions are required''), fsys)
                | Some buffer \<Rightarrow>
                    if redactions = []
                    then (Response 400 (ErrorJson ''file and redactions are required''), fsys)
                    else
                      (case mkdtemp h fsys of
                         Inl e \<Rightarrow> (Unhandled e, fsys)
                       | Inr (tempDir, fs1) \<Rightarrow>
                           (case try_block h pdftoppm tempDir buffer redactions fs1 of
                              (Inl (Thrown msg), fs2) \<Rightarrow>
                                (Response 500 (ErrorJson msg), rm tempDir fs2)
                            | (Inr sent, fs2) \<Rightarrow> (sent, rm tempDir fs2))))))"


section \<open>A sample host and request for concrete runs\<close>

definition sample_doc :: pdf_doc where
  "sample_doc =
     [\<lparr>page_width = 612, page_height = 792,
       page_ops = [ShowText ''secret'', Graphics ''logo'']\<rparr>]"

definition sample_host :: host where
  "sample_host =
     \<lparr>env_QPDF_PATH = None, env_LIBREOFFICE_PATH = None, env_PDFTOPPM_PATH = None,
      access_X_OK = (\<lambda>p. p = ''/usr/bin/pdftoppm''),
      coerce_Number = (\<lambda>v. Inr NaN),
      os_tmpdir = ''/tmp'',
      mkdtemp_suffix = ''Ab12Cd'',
      pdf_load = (\<lambda>b. if b = ''%PDF-sample'' then Inr sample_doc
                       else Inl (Thrown ''No PDF header found'')),
      pdf_save = (\<lambda>d. replicate (length d) CHR ''P''),
      exec_pdftoppm = (\<lambda>bin stage.
         (if stage = ''P'' then [(''redacted-page-1.jpg'', ''JPEG-1'')] else [], None)),
      embedJpg = (\<lambda>b. if b = ''JPEG-1'' then Inr (1870, 2420)
                       else Inl (Thrown ''SOI not found in JPEG''))\<rparr>"

definition host_without_tools :: host where
  "host_without_tools = sample_host\<lparr>access_X_OK := (\<lambda>p. False)\<rparr>"

definition rule_json :: "rat \<Rightarrow> rat \<Rightarrow> rat \<Rightarrow> rat \<Rightarrow> rat \<Rightarrow> json" where
  \<comment> \<open>the entry \<open>{"page": p, "x": a, "y": b, "width": w, "height": ht}\<close>\<close>
  "rule_json p a b w ht =
     JObj [(''page'', JNum (dbl p)), (''x'', JNum (dbl a)), (''y'', JNum (dbl b)),
           (''width'', JNum (dbl w)), (''height'', JNum (dbl ht))]"

definition sample_entry :: json where
  \<comment> \<open>\<open>{"page": 1, "x": 0.1, "y": 0.2, "width": 0.6, "height": 0.1}\<close>\<close>
  "sample_entry = rule_json 1 (1 / 10) (2 / 10) (6 / 10) (1 / 10)"

definition sample_rule :: rule where
  "sample_rule =
     \<lparr>page = Fin 1, x = dbl (1 / 10), y = dbl (2 / 10), width = dbl (6 / 10),
      height = dbl (1 / 10)\<rparr>"

definition far_entry :: json where
  \<comment> \<open>\<open>{"page": 5, "x": 0, "y": 0, "width": 1, "height": 1}\<close>\<close>
  "far_entry = rule_json 5 0 0 1 1"

definition far_rule :: rule where
  "far_rule = \<lparr>page = Fin 5, x = Fin 0, y = Fin 0, width = Fin 1, height = Fin 1\<rparr>"

definition sample_request :: "bytes \<Rightarrow> json list \<Rightarrow> request" where
  "sample_request buffer entries =
     \<lparr>req_file = Some buffer, req_redactions = Parsed (JArr entries)\<rparr>"

definition in_spec_ranges :: "rule \<Rightarrow> bool" where
  \<comment> \<open>the validity of a rule in the words of the data model: five finite numbers, page an
      integer from 1, x and y in [0,1], width and height in (0,1]\<close>
  "in_spec_ranges r =
     (case (page r, x r, y r, width r, height r) of
        (Fin p, Fin a, Fin b, Fin w, Fin ht) \<Rightarrow>
          of_int \<lfloor>p\<rfloor> = p \<and> 1 \<le> p \<and> 0 \<le> a \<and> a \<le> 1 \<and> 0 \<le> b \<and> b \<le> 1
          \<and> 0 < w \<and> w \<le> 1 \<and> 0 < ht \<and> ht \<le> 1
      | _ \<Rightarrow> False)"


section \<open>Rounding is exact on the integers up to \<open>2\<^sup>5\<^sup>3\<close>\<close>

lemma round_even_of_int: "round_even (of_int j) = j"
  by (simp add: round_even_def)

lemma pow2_pos: "0 < pow2 e"
  by (simp add: pow2_def)

lemma rnd_exact_if_int:
  assumes "q \<noteq> 0" and "q / pow2 (max (ilog2 \<bar>q\<bar> - 52) (- 1074)) = of_int j"
  shows "rnd q = q"
proof -
  let ?s = "pow2 (max (ilog2 \<bar>q\<bar> - 52) (- 1074))"
  have "rnd q = of_int (round_even (q / ?s)) * ?s"
    using assms(1) by (simp add: rnd_def Let_def)
  also have "\<dots> = (q / ?s) * ?s"
    by (simp only: assms(2) round_even_of_int)
  also have "\<dots> = q"
    using pow2_pos [of "max (ilog2 \<bar>q\<bar> - 52) (- 1074)"] by simp
  finally show ?thesis .
qed

lemma ilog2_of_int: "0 < k \<Longrightarrow> ilog2 (of_int k) = bitlen k - 1"
  by (simp add: ilog2_def)

lemma rnd_of_int:
  assumes "\<bar>k\<bar> \<le> 2 ^ 53"
  shows "rnd (of_int k) = of_int k"
proof (cases "k = 0")
  case True
  then show ?thesis by (simp add: rnd_def)
next
  case False
  define a where "a = \<bar>k\<bar>"
  have apos: "0 < a" using False by (simp add: a_def)
  have abs_eq: "\<bar>of_int k :: rat\<bar> = of_int a" by (simp add: a_def)
  have il: "ilog2 \<bar>of_int k\<bar> = bitlen a - 1"
    unfolding abs_eq using apos by (rule ilog2_of_int)
  have "a < 2 ^ 54"
  proof -
    have "a \<le> 2 ^ 53" using assms by (simp add: a_def)
    also have "\<dots> < (2 ^ 54 :: int)" by simp
    finally show ?thesis .
  qed
  then have ble: "bitlen a \<le> 54"
    using bitlen_le_iff_power [of a 54] by simp
  define e where "e = max (bitlen a - 1 - 52) (- 1074)"
  have e_le: "e \<le> 1" using ble by (simp add: e_def)
  have "\<exists>j. of_int k / pow2 e = (of_int j :: rat)"
  proof (cases "e \<le> 0")
    case True
    then have "pow2 e = 1 / 2 ^ nat (- e)"
      by (cases "e = 0") (simp_all add: pow2_def)
    then have "of_int k / pow2 e = (of_int (k * 2 ^ nat (- e)) :: rat)" by simp
    then show ?thesis by blast
  next
    case False
    then have e1: "e = 1" using e_le by simp
    then have "bitlen a = 54" using ble by (simp add: e_def max_def split: if_splits)
    then have "2 ^ 53 \<le> a" using bitlen_ge_iff_power [of 54 a] by simp
    then have "a = 2 ^ 53" using assms by (simp add: a_def)
    then have "k = 2 ^ 53 \<or> k = - (2 ^ 53)" by (auto simp: a_def abs_if split: if_splits)
    then have "of_int k / pow2 e = (of_int (k div 2) :: rat)"
      using e1 by (auto simp: pow2_def)
    then show ?thesis by blast
  qed
  then obtain j where "of_int k / pow2 (max (ilog2 \<bar>of_int k\<bar> - 52) (- 1074)) = (of_int j :: rat)"
    unfolding il e_def by blast
  moreover have "(of_int k :: rat) \<noteq> 0" using False by simp
  ultimately show ?thesis by (rule rnd_exact_if_int [rotated])
qed

lemma round_even_ge_floor: "\<lfloor>v\<rfloor> \<le> round_even v"
  by (simp add: round_even_def Let_def)

lemma rnd_ge_big:
  assumes "2 ^ 53 \<le> q"
  shows "2 ^ 53 \<le> rnd q"
proof -
  have q1: "1 \<le> q" and qpos: "0 < q" and qabs: "\<bar>q\<bar> = q"
    using assms by (auto intro: order_trans [OF _ assms])
  define z where "z = \<lfloor>q\<rfloor>"
  have z53: "2 ^ 53 \<le> z" using assms by (simp add: z_def le_floor_iff)
  then have zpos: "0 < z" by (simp add: order.strict_trans2 [OF _ z53])
  define L where "L = bitlen z - 1"
  have il: "ilog2 \<bar>q\<bar> = L" using q1 by (simp add: qabs ilog2_def z_def L_def)
  have "54 \<le> bitlen z" using z53 bitlen_ge_iff_power [of 54 z] by simp
  then have L53: "53 \<le> L" by (simp add: L_def)
  define n where "n = nat (L - 52)"
  have n1: "1 \<le> n" using L53 by (simp add: n_def)
  have e: "max (L - 52) (- 1074) = int n" using L53 by (simp add: n_def)
  have s: "pow2 (int n) = 2 ^ n" by (simp add: pow2_def)
  have "2 ^ nat L \<le> z" using bitlen_bounds [OF zpos] by (simp add: L_def)
  then have "(2 ^ nat L :: rat) \<le> of_int z"
    by (metis of_int_le_iff of_int_numeral of_int_power)
  also have "\<dots> \<le> q" by (simp add: z_def)
  finally have lo: "(2 ^ nat L :: rat) \<le> q" .
  have "nat L = 52 + n" using L53 by (simp add: n_def)
  then have "(2 ^ 52 :: rat) * 2 ^ n \<le> q" using lo by (simp add: power_add)
  then have "(2 ^ 52 :: rat) \<le> q / 2 ^ n" by (simp add: pos_le_divide_eq)
  then have "(2 ^ 52 :: int) \<le> \<lfloor>q / 2 ^ n\<rfloor>" by (simp add: le_floor_iff)
  then have "2 ^ 52 \<le> round_even (q / 2 ^ n)"
    using round_even_ge_floor [of "q / 2 ^ n"] by linarith
  then have "(2 ^ 52 :: rat) \<le> of_int (round_even (q / 2 ^ n))"
    by (metis of_int_le_iff of_int_numeral of_int_power)
  moreover have "(2 :: rat) \<le> 2 ^ n" using n1
    by (metis power_increasing one_le_numeral power_one_right)
  ultimately have "(2 ^ 52 :: rat) * 2 \<le> of_int (round_even (q / 2 ^ n)) * 2 ^ n"
    by (intro mult_mono) simp_all
  moreover have "rnd q = of_int (round_even (q / 2 ^ n)) * 2 ^ n"
    using qpos by (simp add: rnd_def il [unfolded qabs] e s Let_def)
  ultimately show ?thesis by simp
qed

lemma dbl_of_int: "\<bar>k\<bar> \<le> 2 ^ 53 \<Longrightarrow> dbl (of_int k) = Fin (of_int k)"
proof -
  assume a: "\<bar>k\<bar> \<le> 2 ^ 53"
  have "ilog2 \<bar>of_int k\<bar> < 1024" if "k \<noteq> 0"
  proof -
    from that have p: "0 < \<bar>k\<bar>" by simp
    have "\<bar>k\<bar> < 2 ^ 54" using a by (rule order.strict_trans1) simp
    then have "bitlen \<bar>k\<bar> \<le> 54" using bitlen_le_iff_power [of "\<bar>k\<bar>" 54] by simp
    moreover have "ilog2 \<bar>of_int k\<bar> = bitlen \<bar>k\<bar> - 1"
      using ilog2_of_int [OF p] by simp
    ultimately show ?thesis by simp
  qed
  then have "rnd (of_int k) = 0 \<or> ilog2 \<bar>rnd (of_int k)\<bar> < 1024"
    unfolding rnd_of_int [OF a] by (cases "k = 0") simp_all
  then show ?thesis
    unfolding dbl_def Let_def by (simp only: rnd_of_int [OF a] if_True)
qed

lemma dbl_of_nat: "n \<le> 2 ^ 53 \<Longrightarrow> dbl (of_nat n) = Fin (of_nat n)"
  using dbl_of_int [of "int n"] by simp

lemma dbl_big: "2 ^ 53 \<le> q \<Longrightarrow> dbl q = PosInf \<or> (\<exists>r. dbl q = Fin r \<and> 2 ^ 53 \<le> r)"
proof -
  assume "2 ^ 53 \<le> q"
  then have "2 ^ 53 \<le> rnd q" by (rule rnd_ge_big)
  moreover from this have "0 < rnd q" by (rule order.strict_trans2 [rotated]) simp
  ultimately show ?thesis by (simp add: dbl_def Let_def)
qed

lemma js_sub_nat:
  assumes "a \<le> 2 ^ 53" and "b \<le> 2 ^ 53"
  shows "js_sub (Fin (of_nat a)) (Fin (of_nat b)) = Fin (of_int (int a - int b))"
proof -
  have "\<bar>int a - int b\<bar> \<le> 2 ^ 53" using assms by (simp add: abs_le_iff)
  then have "dbl (of_int (int a - int b)) = Fin (of_int (int a - int b))" by (rule dbl_of_int)
  then show ?thesis by simp
qed

lemma index_of_page:
  assumes "1 \<le> p" and "p \<le> 2 ^ 53"
  shows "js_sub (Fin (of_nat p)) (Fin 1) = Fin (of_nat (p - 1))"
proof -
  have e: "(of_nat p :: rat) - 1 = of_nat (p - 1)"
    using assms(1) by (simp add: of_nat_diff)
  have "p - 1 \<le> 2 ^ 53" using assms(2) by (rule order_trans [rotated]) simp
  then have "dbl (of_nat (p - 1)) = Fin (of_nat (p - 1))" by (rule dbl_of_nat)
  then show ?thesis by (simp only: js_sub.simps e)
qed

lemma index_beyond:
  assumes "n < p" and "n \<le> 2 ^ 53"
  shows "js_ge (js_sub (Fin (of_nat p)) (Fin 1)) (Fin (of_nat n))"
proof (cases "p \<le> 2 ^ 53")
  case True
  then have "js_sub (Fin (of_nat p)) (Fin 1) = Fin (of_nat (p - 1))"
    using assms(1) by (intro index_of_page) simp_all
  moreover have "n \<le> p - 1" using assms(1) by simp
  ultimately show ?thesis by (simp add: js_ge_def)
next
  case False
  then have "2 ^ 53 + 1 \<le> p" by simp
  then have "(of_nat (2 ^ 53 + 1) :: rat) \<le> of_nat p" by (simp only: of_nat_le_iff)
  then have big: "(2 ^ 53 :: rat) \<le> of_nat p - 1" by simp
  have n53: "(of_nat n :: rat) \<le> 2 ^ 53"
  proof -
    have "(of_nat n :: rat) \<le> of_nat (2 ^ 53)" using assms(2) by (simp only: of_nat_le_iff)
    then show ?thesis by simp
  qed
  from dbl_big [OF big] show ?thesis
  proof
    assume "dbl (of_nat p - 1) = PosInf"
    then show ?thesis by (simp add: js_ge_def)
  next
    assume "\<exists>r. dbl (of_nat p - 1) = Fin r \<and> 2 ^ 53 \<le> r"
    then obtain r where "dbl (of_nat p - 1) = Fin r" and "2 ^ 53 \<le> r" by blast
    then show ?thesis using n53 by (simp add: js_ge_def)
  qed
qed


section \<open>Facts about the rectangle loop\<close>

lemma apply_rule_beyond:
  assumes "page entry = Fin (of_nat p)" and "length source < p" and "length source \<le> 2 ^ 53"
  shows "apply_rule source entry = Inr source"
  using index_beyond [OF assms(2,3)]
  by (simp add: apply_rule_def Let_def assms(1) getPageCount_def)

lemma apply_rule_length: "apply_rule source entry = Inr staged \<Longrightarrow> length staged = length source"
  by (auto simp add: apply_rule_def Let_def split: if_splits sum.splits option.splits)

lemma apply_rules_length: "apply_rules source rs = Inr staged \<Longrightarrow> length staged = length source"
proof (induction rs arbitrary: source)
  case Nil
  then show ?case by simp
next
  case (Cons r rs)
  then show ?case
    by (auto split: sum.splits dest: apply_rule_length)
qed

lemma apply_rules_skip:
  assumes "page entry = Fin (of_nat p)" and "length source < p" and "length source \<le> 2 ^ 53"
  shows "apply_rules source (rs1 @ entry # rs2) = apply_rules source (rs1 @ rs2)"
  using assms(2,3)
proof (induction rs1 arbitrary: source)
  case Nil
  then show ?case using apply_rule_beyond [OF assms(1)] by simp
next
  case (Cons r rs1)
  show ?case
  proof (cases "apply_rule source r")
    case (Inl e)
    then show ?thesis by simp
  next
    case (Inr staged)
    then have "length staged = length source" by (rule apply_rule_length)
    then show ?thesis using Cons Inr by simp
  qed
qed

lemma apply_rule_in_range:
  assumes "page entry = Fin (of_nat p)" and "1 \<le> p" and "p \<le> length source"
    and "length source \<le> 2 ^ 53"
  shows "apply_rule source entry = Inr (source[p - 1 := draw_cover (source ! (p - 1)) entry])"
proof -
  have idx: "js_sub (page entry) (Fin 1) = Fin (of_nat (p - 1))"
    unfolding assms(1) using assms by (intro index_of_page) simp_all
  have lt: "p - 1 < length source" using assms by simp
  have a: "\<not> js_lt (Fin (of_nat (p - 1))) (Fin 0)" by simp
  have b: "\<not> js_ge (Fin (of_nat (p - 1))) (getPageCount source)"
    using lt by (simp add: js_ge_def getPageCount_def)
  have "(of_nat (p - 1) :: rat) \<le> of_nat (length source - 1)"
    using assms by simp
  also have "\<dots> = of_nat (length source) - 1" using assms by (simp add: of_nat_diff)
  finally have le: "(of_nat (p - 1) :: rat) \<le> max 0 (of_nat (length source) - 1)" by simp
  have c: "getPage source (Fin (of_nat (p - 1))) = Inr (Some (p - 1))"
    using lt le by (simp add: getPage_def)
  show ?thesis
    unfolding apply_rule_def idx Let_def using a b c by simp
qed


section \<open>The health endpoint\<close>

text \<open>
  Claim C10.  \<open>GET /api/health\<close> answers \<open>ok: true\<close> on every host; whether \<open>qpdf\<close>,
  LibreOffice or \<open>pdftoppm\<close> was found shows only in the \<open>binaries\<close> object.
\<close>

theorem health_ok_unconditional:
  "ok (health h) = True
   \<and> hb_qpdf (binaries (health h)) = (resolveQpdfBinary h \<noteq> None)
   \<and> hb_libreoffice (binaries (health h)) = (resolveLibreOfficeBinary h \<noteq> None)
   \<and> hb_pdftoppm (binaries (health h)) = (resolvePdftoppmBinary h \<noteq> None)"
  by (simp add: health_def Let_def)


section \<open>Validation of the parsed rules\<close>

lemma isFinite_iff: "isFinite v \<longleftrightarrow> (\<exists>q. v = Fin q)"
  by (cases v) simp_all

lemma map_entries_Inr:
  "map_entries h entries = Inr cs \<Longrightarrow> map (to_rule h) entries = map Inr cs"
proof (induction entries arbitrary: cs)
  case Nil
  then show ?case by simp
next
  case (Cons e es)
  then show ?case by (auto split: sum.splits)
qed

text \<open>
  A \<open>null\<close> entry is not dropped: reading \<open>entry.page\<close> throws, outside every \<open>try\<close>, so
  \<open>parseRedactions\<close> does not return and the handler sends no response.
\<close>

lemma null_entry_throws:
  "parseRedactions h (Parsed (JArr (JNull # entries))) =
     Inl (Thrown ''Cannot read properties of null'')"
  by (simp add: parseRedactions_def to_rule_def number_field_def get_prop_def)

lemma null_entry_unhandled:
  "resolvePdftoppmBinary h = Some bin \<Longrightarrow>
     redact_pdf h fsys \<lparr>req_file = f, req_redactions = Parsed (JArr (JNull # entries))\<rparr> =
       (Unhandled (Thrown ''Cannot read properties of null''), fsys)"
  by (simp add: redact_pdf_def null_entry_throws)

text \<open>No rule is left when the field is missing, is not JSON, is not an array, is the empty
  array, or holds only entries that fail the test.\<close>

lemma parse_no_rules:
  "parseRedactions h Missing = Inr []"
  "parseRedactions h Malformed = Inr []"
  "parseRedactions h (Parsed (JArr [])) = Inr []"
  "map_entries h entries = Inr cs \<Longrightarrow> \<forall>c\<in>set cs. \<not> keep_entry c \<Longrightarrow>
     parseRedactions h (Parsed (JArr entries)) = Inr []"
  by (simp_all add: parseRedactions_def)

lemma sample_wide_rule:
  "parseRedactions sample_host (Parsed (JArr [rule_json (3 / 2) 2 0 5 1, JNum (Fin 7)])) =
     Inr [\<lparr>page = Fin (3 / 2), x = Fin 2, y = Fin 0, width = Fin 5, height = Fin 1\<rparr>]"
  by code_simp

text \<open>
  Claim C4, as the code has it.  A parsed entry is kept exactly when its five fields are finite
  numbers with \<open>page \<ge> 1\<close>, \<open>x \<ge> 0\<close>, \<open>y \<ge> 0\<close>, \<open>width > 0\<close> and \<open>height > 0\<close>; there is no
  upper bound and \<open>page\<close> need not be whole.  When \<open>parseRedactions\<close> returns, its result is
  the converted entries that pass this test, in their order; the others are dropped without
  an error.
\<close>

theorem keep_entry_checks_lower_bounds:
  "(keep_entry (r :: rule) \<longleftrightarrow>
      (\<exists>p a b w ht. r = \<lparr>page = Fin p, x = Fin a, y = Fin b, width = Fin w, height = Fin ht\<rparr>
         \<and> 1 \<le> p \<and> 0 \<le> a \<and> 0 \<le> b \<and> 0 < w \<and> 0 < ht))
   \<and> (parseRedactions h (Parsed (JArr entries)) = Inr rs \<longrightarrow>
        (\<exists>cs. map (to_rule h) entries = map Inr cs \<and> rs = filter keep_entry cs))"
proof (intro conjI impI iffI)
  assume k: "keep_entry r"
  then obtain p a b w ht where f: "page r = Fin p" "x r = Fin a" "y r = Fin b"
      "width r = Fin w" "height r = Fin ht"
    unfolding keep_entry_def isFinite_iff by blast
  then have "r = \<lparr>page = Fin p, x = Fin a, y = Fin b, width = Fin w, height = Fin ht\<rparr>"
    by (cases r) simp
  moreover have "1 \<le> p \<and> 0 \<le> a \<and> 0 \<le> b \<and> 0 < w \<and> 0 < ht"
    using k by (simp add: keep_entry_def f js_ge_def js_gt_def)
  ultimately show "\<exists>p a b w ht. r = \<lparr>page = Fin p, x = Fin a, y = Fin b, width = Fin w, height = Fin ht\<rparr>
         \<and> 1 \<le> p \<and> 0 \<le> a \<and> 0 \<le> b \<and> 0 < w \<and> 0 < ht"
    by blast
next
  assume "\<exists>p a b w ht. r = \<lparr>page = Fin p, x = Fin a, y = Fin b, width = Fin w, height = Fin ht\<rparr>
         \<and> 1 \<le> p \<and> 0 \<le> a \<and> 0 \<le> b \<and> 0 < w \<and> 0 < ht"
  then show "keep_entry r"
    by (auto simp add: keep_entry_def js_ge_def js_gt_def)
next
  assume "parseRedactions h (Parsed (JArr entries)) = Inr rs"
  then obtain cs where "map_entries h entries = Inr cs" and "rs = filter keep_entry cs"
    by (auto simp add: parseRedactions_def split: sum.splits)
  then show "\<exists>cs. map (to_rule h) entries = map Inr cs \<and> rs = filter keep_entry cs"
    using map_entries_Inr by blast
qed

theorem keep_entry_checks_lower_bounds_witness:
  "\<exists>cs. map (to_rule sample_host) [rule_json (3 / 2) 2 0 5 1, JNum (Fin 7)] = map Inr cs
     \<and> [\<lparr>page = Fin (3 / 2), x = Fin 2, y = Fin 0, width = Fin 5, height = Fin 1\<rparr>]
         = filter keep_entry cs"
  using keep_entry_checks_lower_bounds [of "\<lparr>page = Fin 1, x = Fin 0, y = Fin 0, width = Fin 1, height = Fin 1\<rparr>" sample_host
      "[rule_json (3 / 2) 2 0 5 1, JNum (Fin 7)]"] sample_wide_rule
  by blast

text \<open>
  The entry \<open>{"page": 1.5, "x": 2, "y": 0, "width": 5, "height": 1}\<close> is kept although its
  page is not whole and \<open>x\<close> and \<open>width\<close> exceed 1.
\<close>

theorem keep_entry_spec_ranges_counterexample:
  "parseRedactions sample_host (Parsed (JArr [rule_json (3 / 2) 2 0 5 1])) =
     Inr [\<lparr>page = Fin (3 / 2), x = Fin 2, y = Fin 0, width = Fin 5, height = Fin 1\<rparr>]
   \<and> \<not> in_spec_ranges \<lparr>page = Fin (3 / 2), x = Fin 2, y = Fin 0, width = Fin 5, height = Fin 1\<rparr>"
  by code_simp


section \<open>The cover rectangle\<close>

lemma sample_rectX: "js_mul (dbl (1 / 10)) (Fin 612) = dbl (612 / 10)"
  by code_simp

lemma sample_rectWidth:
  "js_min (js_sub (Fin 612) (dbl (612 / 10))) (js_mul (dbl (6 / 10)) (Fin 612)) = dbl (3672 / 10)"
  by code_simp

lemma sample_rectHeight: "js_min (Fin 792) (js_mul (dbl (1 / 10)) (Fin 792)) = dbl (792 / 10)"
  by code_simp

lemma sample_rectY:
  "js_max (Fin 0) (js_sub (js_sub (Fin 792) (js_mul (dbl (2 / 10)) (Fin 792))) (dbl (792 / 10)))
     = dbl (5544 / 10)"
  by code_simp

lemma sample_max: "js_max (Fin 1) (dbl (3672 / 10)) = dbl (3672 / 10)"
  "js_max (Fin 1) (dbl (792 / 10)) = dbl (792 / 10)"
  by code_simp+

lemma sample_cover:
  "draw_cover \<lparr>page_width = 612, page_height = 792, page_ops = ops\<rparr>
     \<lparr>page = pnum, x = dbl (1 / 10), y = dbl (2 / 10), width = dbl (6 / 10), height = dbl (1 / 10)\<rparr>
   = \<lparr>page_width = 612, page_height = 792,
      page_ops = ops @ [FillRect (dbl (612 / 10)) (dbl (5544 / 10)) (dbl (3672 / 10)) (dbl (792 / 10))]\<rparr>"
  unfolding draw_cover_def Let_def drawRectangle_def
  by (simp only: rule.simps pdf_page.simps sample_rectX sample_rectWidth sample_rectHeight
        sample_rectY sample_max)

text \<open>
  Claim C3.  For a rule whose page is a whole number within the document, the rectangle is
  drawn on that page with \<open>rectX = x\<cdot>pageWidth\<close>,
  \<open>rectWidth = min(pageWidth - rectX, width\<cdot>pageWidth)\<close>,
  \<open>rectHeight = min(pageHeight, height\<cdot>pageHeight)\<close>,
  \<open>rectY = max(0, pageHeight - y\<cdot>pageHeight - rectHeight)\<close>, at \<open>(rectX, rectY)\<close> with
  size \<open>(max(1, rectWidth), max(1, rectHeight))\<close>, every operation being the JavaScript
  one.  On a 612 by 792 page the rule \<open>{page: 1, x: 0.1, y: 0.2, width: 0.6, height: 0.1}\<close>
  gives the numbers 61.2, 554.4, 367.2 and 79.2.
\<close>

theorem cover_rectangle:
  "(page entry = Fin (of_nat p) \<and> 1 \<le> p \<and> p \<le> length source \<and> length source < 2 ^ 32 \<longrightarrow>
      (let pg = source ! (p - 1);
           pageWidth = Fin (page_width pg);
           pageHeight = Fin (page_height pg);
           rectX = js_mul (x entry) pageWidth;
           rectWidth = js_min (js_sub pageWidth rectX) (js_mul (width entry) pageWidth);
           rectHeight = js_min pageHeight (js_mul (height entry) pageHeight);
           rectY = js_max (Fin 0)
                     (js_sub (js_sub pageHeight (js_mul (y entry) pageHeight)) rectHeight)
       in apply_rule source entry =
            Inr (source[p - 1 := pg\<lparr>page_ops := page_ops pg @
                   [FillRect rectX rectY (js_max (Fin 1) rectWidth) (js_max (Fin 1) rectHeight)]\<rparr>])))
   \<and> apply_rule [\<lparr>page_width = 612, page_height = 792, page_ops = ops\<rparr>]
         \<lparr>page = Fin 1, x = dbl (1 / 10), y = dbl (2 / 10), width = dbl (6 / 10),
          height = dbl (1 / 10)\<rparr>
       = Inr [\<lparr>page_width = 612, page_height = 792,
               page_ops = ops @ [FillRect (dbl (612 / 10)) (dbl (5544 / 10)) (dbl (3672 / 10))
                                   (dbl (792 / 10))]\<rparr>]"
proof (intro conjI impI)
  assume a: "page entry = Fin (of_nat p) \<and> 1 \<le> p \<and> p \<le> length source \<and> length source < 2 ^ 32"
  then have "length source \<le> 2 ^ 32" by simp
  then have "length source \<le> 2 ^ 53" by (rule order_trans) simp
  with a have "apply_rule source entry = Inr (source[p - 1 := draw_cover (source ! (p - 1)) entry])"
    by (intro apply_rule_in_range) simp_all
  then show "let pg = source ! (p - 1);
           pageWidth = Fin (page_width pg);
           pageHeight = Fin (page_height pg);
           rectX = js_mul (x entry) pageWidth;
           rectWidth = js_min (js_sub pageWidth rectX) (js_mul (width entry) pageWidth);
           rectHeight = js_min pageHeight (js_mul (height entry) pageHeight);
           rectY = js_max (Fin 0)
                     (js_sub (js_sub pageHeight (js_mul (y entry) pageHeight)) rectHeight)
       in apply_rule source entry =
            Inr (source[p - 1 := pg\<lparr>page_ops := page_ops pg @
                   [FillRect rectX rectY (js_max (Fin 1) rectWidth) (js_max (Fin 1) rectHeight)]\<rparr>])"
    by (simp add: draw_cover_def drawRectangle_def Let_def)
next
  let ?pg = "\<lparr>page_width = 612, page_height = 792, page_ops = ops\<rparr>"
  let ?e = "\<lparr>page = Fin 1, x = dbl (1 / 10), y = dbl (2 / 10), width = dbl (6 / 10),
          height = dbl (1 / 10)\<rparr>"
  have upd: "[?pg][1 - 1 := v] = [v]" for v by simp
  have nth: "[?pg] ! (1 - 1) = ?pg" by simp
  have "apply_rule [?pg] ?e = Inr ([?pg][1 - 1 := draw_cover ([?pg] ! (1 - 1)) ?e])"
    by (rule apply_rule_in_range) simp_all
  then show "apply_rule [?pg] ?e = Inr [\<lparr>page_width = 612, page_height = 792,
               page_ops = ops @ [FillRect (dbl (612 / 10)) (dbl (5544 / 10)) (dbl (3672 / 10))
                                   (dbl (792 / 10))]\<rparr>]"
    by (simp only: upd nth sample_cover)
qed


theorem cover_rectangle_witness:
  "apply_rule sample_doc
     \<lparr>page = Fin 1, x = dbl (1 / 10), y = dbl (2 / 10), width = dbl (6 / 10),
      height = dbl (1 / 10)\<rparr> =
   Inr [\<lparr>page_width = 612, page_height = 792,
         page_ops = [ShowText ''secret'', Graphics ''logo''] @
           [FillRect (dbl (612 / 10)) (dbl (5544 / 10)) (dbl (3672 / 10)) (dbl (792 / 10))]\<rparr>]"
proof -
  let ?e = "\<lparr>page = Fin 1, x = dbl (1 / 10), y = dbl (2 / 10), width = dbl (6 / 10),
      height = dbl (1 / 10)\<rparr>"
  have "page ?e = Fin (of_nat 1) \<and> 1 \<le> (1 :: nat) \<and> 1 \<le> length sample_doc
      \<and> length sample_doc < 2 ^ 32"
    by (simp add: sample_doc_def)
  then show ?thesis
    using cover_rectangle [of ?e 1 sample_doc] unfolding sample_doc_def by simp
qed


section \<open>Requests that are rejected\<close>

lemma sample_resolve: "resolvePdftoppmBinary sample_host = Some ''/usr/bin/pdftoppm''"
  by code_simp

lemma no_tools_resolve: "resolvePdftoppmBinary host_without_tools = None"
  by code_simp

text \<open>
  Claim C8.  When no \<open>pdftoppm\<close> binary is found the handler answers 501 and the file system
  is as before: no temporary directory was made.
\<close>

theorem missing_rasterizer_501:
  assumes "resolvePdftoppmBinary h = None"
  shows "redact_pdf h fsys req =
     (Response 501
        (ErrorJson ''pdftoppm binary not found. Install poppler-utils or set PDFTOPPM_PATH.''),
      fsys)"
  using assms by (simp add: redact_pdf_def)

theorem missing_rasterizer_501_witness:
  "redact_pdf host_without_tools Map.empty
     \<lparr>req_file = Some ''%PDF-sample'',
      req_redactions = Parsed (JArr [rule_json 1 (1 / 10) (2 / 10) (6 / 10) (1 / 10)])\<rparr> =
     (Response 501
        (ErrorJson ''pdftoppm binary not found. Install poppler-utils or set PDFTOPPM_PATH.''),
      Map.empty)"
  using no_tools_resolve by (rule missing_rasterizer_501)

text \<open>
  Claim C7, as the code has it.  The rasterizer check comes first and \<open>parseRedactions\<close>
  runs before the test for the file.  When the binary is found and \<open>parseRedactions\<close> returns
  a rule list, a request without a file or with no rule left is answered 400 and the file
  system is as before: no directory is made, nothing is loaded or drawn.
\<close>

theorem reject_400_when_rasterizer_found:
  assumes "resolvePdftoppmBinary h = Some bin"
    and "parseRedactions h (req_redactions req) = Inr rs"
    and "req_file req = None \<or> rs = []"
  shows "redact_pdf h fsys req =
     (Response 400 (ErrorJson ''file and redactions are required''), fsys)"
  using assms by (auto simp add: redact_pdf_def split: option.splits)

theorem reject_400_when_rasterizer_found_witness:
  "redact_pdf sample_host Map.empty \<lparr>req_file = Some ''%PDF-sample'', req_redactions = Parsed (JArr [])\<rparr> =
     (Response 400 (ErrorJson ''file and redactions are required''), Map.empty)"
proof -
  have "parseRedactions sample_host
          (req_redactions \<lparr>req_file = Some ''%PDF-sample'', req_redactions = Parsed (JArr [])\<rparr>) = Inr []"
    by (simp add: parseRedactions_def)
  with sample_resolve show ?thesis
    by (rule reject_400_when_rasterizer_found) simp
qed

text \<open>
  Without the binary, a request with no file and no rule is answered 501, not 400.
\<close>

theorem reject_without_file_counterexample:
  "fst (redact_pdf host_without_tools Map.empty \<lparr>req_file = None, req_redactions = Parsed (JArr [])\<rparr>) =
     Response 501
       (ErrorJson ''pdftoppm binary not found. Install poppler-utils or set PDFTOPPM_PATH.'')"
  using no_tools_resolve by (simp add: redact_pdf_def)


section \<open>The order of the rasterized pages\<close>

lemma js_insert_insort:
  assumes "\<forall>b\<in>set bs. js_gt (cmp a b) (Fin 0) \<longleftrightarrow> key b < key a"
  shows "js_insert cmp a bs = insort_key key a bs"
  using assms by (induction bs) (auto simp add: not_less)

lemma set_js_insert: "set (js_insert cmp a bs) = insert a (set bs)"
  by (induction bs) auto

lemma js_sort_sort_key:
  fixes key :: "'a \<Rightarrow> nat"
  assumes "\<forall>a\<in>set xs. \<forall>b\<in>set xs. js_gt (cmp a b) (Fin 0) \<longleftrightarrow> key b < key a"
  shows "js_sort cmp xs = sort_key key xs"
  using assms
proof (induction xs)
  case Nil
  then show ?case by (simp add: js_sort_def)
next
  case (Cons a xs)
  then have ih: "js_sort cmp xs = sort_key key xs" by simp
  have "js_insert cmp a (sort_key key xs) = insort_key key a (sort_key key xs)"
    using Cons.prems by (intro js_insert_insort) simp
  then show ?case using ih by (simp add: js_sort_def)
qed

lemma name_Number_exact:
  "page_number n \<le> 2 ^ 53 \<Longrightarrow> name_Number n = Fin (of_nat (page_number n))"
  by (simp add: name_Number_def page_number_def dec_val_def dbl_of_nat)

lemma compare_names_sign:
  assumes "page_number a \<le> 2 ^ 53" and "page_number b \<le> 2 ^ 53"
  shows "js_gt (compare_names a b) (Fin 0) \<longleftrightarrow> page_number b < page_number a"
proof -
  have "compare_names a b = Fin (of_int (int (page_number a) - int (page_number b)))"
    unfolding compare_names_def name_Number_exact [OF assms(1)] name_Number_exact [OF assms(2)]
    using assms by (rule js_sub_nat)
  then show ?thesis by (simp add: js_gt_def)
qed

text \<open>
  Claim C6.  The rasterizer numbers its files by the pages of a document, so the numbers lie
  far within the integers that a JavaScript number holds exactly (up to \<open>2\<^sup>5\<^sup>3\<close>).  For such
  file names that match \<open>redacted-page-<number>.jpg\<close>, \<open>generated\<close> is the stable sort of the
  names by the numeric value of the page number: ascending by number, not by the text of the
  name, and a rearrangement of the names given; page 10 comes after page 9.
\<close>

theorem generated_sorted_numerically:
  assumes "\<forall>n\<in>set names. is_raster_name n \<and> page_number n \<le> 2 ^ 53"
  shows "generated_names names = sort_key page_number names
    \<and> sorted (map page_number (generated_names names))
    \<and> mset (generated_names names) = mset names"
proof -
  have f: "filter is_raster_name names = names" using assms by (simp add: filter_id_conv)
  have "js_sort compare_names names = sort_key page_number names"
    using assms by (intro js_sort_sort_key) (simp add: compare_names_sign)
  then have "generated_names names = sort_key page_number names"
    by (simp add: generated_names_def f)
  then show ?thesis by simp
qed

theorem generated_sorted_numerically_witness:
  "generated_names [''redacted-page-10.jpg'', ''redacted-page-9.jpg'', ''Redacted-Page-01.JPG'']
     = [''Redacted-Page-01.JPG'', ''redacted-page-9.jpg'', ''redacted-page-10.jpg'']"
proof -
  let ?names = "[''redacted-page-10.jpg'', ''redacted-page-9.jpg'', ''Redacted-Page-01.JPG'']"
  have r: "is_raster_name ''redacted-page-10.jpg''" "is_raster_name ''redacted-page-9.jpg''"
      "is_raster_name ''Redacted-Page-01.JPG''"
    by code_simp+
  have p: "page_number ''redacted-page-10.jpg'' = 10" "page_number ''redacted-page-9.jpg'' = 9"
      "page_number ''Redacted-Page-01.JPG'' = 1"
    by code_simp+
  have "\<forall>n\<in>set ?names. is_raster_name n \<and> page_number n \<le> 2 ^ 53"
    by (simp add: r p)
  then have "generated_names ?names = sort_key page_number ?names"
    using generated_sorted_numerically [of ?names] by blast
  then show ?thesis by (simp add: p)
qed


section \<open>Facts about the working directory and the reassembly\<close>

lemma writeFile_other: "d' \<noteq> d \<Longrightarrow> writeFile d n b fsys d' = fsys d'"
  by (simp add: writeFile_def split: option.splits)

lemma writeFile_same:
  "fsys d = Some es \<Longrightarrow> writeFile d n b fsys d = Some (write_entry n b es)"
  by (simp add: writeFile_def)

lemma fold_writeFile_other:
  "d' \<noteq> d \<Longrightarrow> fold (\<lambda>(n, b). writeFile d n b) files fsys d' = fsys d'"
  by (induction files arbitrary: fsys) (auto simp add: writeFile_other)

lemma fold_writeFile_same:
  "fsys d = Some es \<Longrightarrow>
     fold (\<lambda>(n, b). writeFile d n b) files fsys d =
       Some (fold (\<lambda>(n, b). write_entry n b) files es)"
proof (induction files arbitrary: fsys es)
  case Nil
  then show ?case by simp
next
  case (Cons f files)
  obtain n b where f: "f = (n, b)" by (cases f)
  have "writeFile d n b fsys d = Some (write_entry n b es)"
    using Cons.prems by (rule writeFile_same)
  then show ?case
    using Cons.IH [of "writeFile d n b fsys" "write_entry n b es"] by (simp add: f)
qed

lemma map_of_write_entry:
  "map_of (write_entry n b es) k = (if k = n then Some b else map_of es k)"
  by (induction es) auto

lemma map_of_fold_write:
  "map_of (fold (\<lambda>(n, b). write_entry n b) files es) k = Some v \<Longrightarrow>
     (k, v) \<in> set files \<or> map_of es k = Some v"
proof (induction files arbitrary: es)
  case Nil
  then show ?case by simp
next
  case (Cons f files)
  obtain n b where f: "f = (n, b)" by (cases f)
  from Cons.prems have "map_of (fold (\<lambda>(n, b). write_entry n b) files (write_entry n b es)) k = Some v"
    by (simp add: f)
  then have "(k, v) \<in> set files \<or> map_of (write_entry n b es) k = Some v"
    by (rule Cons.IH)
  then show ?case by (auto simp add: f map_of_write_entry split: if_splits)
qed

lemma write_entry_new: "n \<notin> fst ` set es \<Longrightarrow> write_entry n b es = es @ [(n, b)]"
  by (induction es) auto

lemma fold_write_new:
  "distinct (map fst files) \<Longrightarrow> fst ` set files \<inter> fst ` set es = {} \<Longrightarrow>
     fold (\<lambda>(n, b). write_entry n b) files es = es @ files"
proof (induction files arbitrary: es)
  case Nil
  then show ?case by simp
next
  case (Cons f files)
  obtain n b where f: "f = (n, b)" by (cases f)
  have new: "n \<notin> fst ` set es" using Cons.prems(2) by (auto simp add: f)
  have "fold (\<lambda>(n, b). write_entry n b) files (es @ [(n, b)]) = (es @ [(n, b)]) @ files"
    using Cons.prems by (intro Cons.IH) (auto simp add: f)
  then show ?case by (simp add: f write_entry_new [OF new])
qed

lemma length_js_insert: "length (js_insert cmp a bs) = Suc (length bs)"
  by (induction bs) auto

lemma length_js_sort: "length (js_sort cmp xs) = length xs"
  by (induction xs) (simp_all add: js_sort_def length_js_insert)

lemma set_js_sort: "set (js_sort cmp xs) = set xs"
  by (induction xs) (simp_all add: js_sort_def set_js_insert)

lemma embed_pages_result:
  "embed_pages h d fsys names out0 = Inr out \<Longrightarrow>
     \<exists>ps. out = out0 @ ps \<and>
       list_all2 (\<lambda>name pg. \<exists>jpg w ht. readFile d name fsys = Inr jpg
                    \<and> embedJpg h jpg = Inr (w, ht) \<and> pg = image_page jpg w ht) names ps"
proof (induction names arbitrary: out0)
  case Nil
  then show ?case by simp
next
  case (Cons name names)
  from Cons.prems obtain jpg w ht where r: "readFile d name fsys = Inr jpg"
      and e: "embedJpg h jpg = Inr (w, ht)"
      and rest: "embed_pages h d fsys names (out0 @ [image_page jpg w ht]) = Inr out"
    by (auto split: sum.splits)
  from Cons.IH [OF rest] obtain ps where "out = (out0 @ [image_page jpg w ht]) @ ps"
      and "list_all2 (\<lambda>name pg. \<exists>jpg w ht. readFile d name fsys = Inr jpg
                    \<and> embedJpg h jpg = Inr (w, ht) \<and> pg = image_page jpg w ht) names ps"
    by blast
  then have "out = out0 @ (image_page jpg w ht # ps) \<and>
       list_all2 (\<lambda>name pg. \<exists>jpg w ht. readFile d name fsys = Inr jpg
                    \<and> embedJpg h jpg = Inr (w, ht) \<and> pg = image_page jpg w ht)
         (name # names) (image_page jpg w ht # ps)"
    using r e by auto
  then show ?case by blast
qed

lemma embed_pages_ok:
  "\<forall>name\<in>set names. \<exists>jpg w ht. readFile d name fsys = Inr jpg \<and> embedJpg h jpg = Inr (w, ht)
     \<Longrightarrow> \<exists>out. embed_pages h d fsys names out0 = Inr out"
proof (induction names arbitrary: out0)
  case Nil
  then show ?case by simp
next
  case (Cons name names)
  then obtain jpg w ht where "readFile d name fsys = Inr jpg" and "embedJpg h jpg = Inr (w, ht)"
    by auto
  moreover have "\<exists>out. embed_pages h d fsys names (out0 @ [image_page jpg w ht]) = Inr out"
    using Cons.prems by (intro Cons.IH) simp
  ultimately show ?case by simp
qed

lemma stage_name_no_raster: "\<not> is_raster_name ''stage-redacted.pdf''"
  by code_simp

lemma mkdtemp_fresh:
  "mkdtemp h fsys = Inr (d, fs1) \<Longrightarrow> fsys d = None \<and> fs1 = fsys(d \<mapsto> [])"
  by (auto simp add: mkdtemp_def Let_def split: if_splits)

lemma rasterize_result:
  assumes "fsa d = Some []" and "exec_pdftoppm h bin stage = (files, failure)"
  shows "fst (rasterize h bin d stage fsa) = failure"
    and "snd (rasterize h bin d stage fsa) d =
           Some (fold (\<lambda>(n, b). write_entry n b) files [(''stage-redacted.pdf'', stage)])"
    and "d' \<noteq> d \<Longrightarrow> snd (rasterize h bin d stage fsa) d' = fsa d'"
proof -
  have w: "writeFile d ''stage-redacted.pdf'' stage fsa d = Some [(''stage-redacted.pdf'', stage)]"
    using writeFile_same [of fsa d "[]", OF assms(1)] by simp
  show "fst (rasterize h bin d stage fsa) = failure"
    by (simp add: rasterize_def assms(2))
  show "snd (rasterize h bin d stage fsa) d =
           Some (fold (\<lambda>(n, b). write_entry n b) files [(''stage-redacted.pdf'', stage)])"
    using fold_writeFile_same [of "writeFile d ''stage-redacted.pdf'' stage fsa" d
        "[(''stage-redacted.pdf'', stage)]" files, OF w]
    by (simp add: rasterize_def assms(2))
  show "d' \<noteq> d \<Longrightarrow> snd (rasterize h bin d stage fsa) d' = fsa d'"
    by (simp add: rasterize_def assms(2) fold_writeFile_other writeFile_other)
qed

lemma rasterize_other:
  "d' \<noteq> d \<Longrightarrow> snd (rasterize h bin d stage fsa) d' = fsa d'"
  by (simp add: rasterize_def fold_writeFile_other writeFile_other split: prod.splits)

lemma try_block_fs:
  "snd (try_block h bin d buf rs fs1) = fs1
   \<or> (\<exists>stage. snd (try_block h bin d buf rs fs1) = snd (rasterize h bin d stage fs1))"
proof (cases "staged_bytes h buf rs")
  case (Inl e)
  then show ?thesis by (simp add: try_block_def)
next
  case (Inr stage)
  obtain failure fs2 where r: "rasterize h bin d stage fs1 = (failure, fs2)"
    by (cases "rasterize h bin d stage fs1")
  have "snd (try_block h bin d buf rs fs1) = fs2"
    by (simp add: try_block_def Inr r Let_def split: option.splits sum.splits)
  then show ?thesis using r by (metis snd_conv)
qed

lemma try_block_other:
  "d' \<noteq> d \<Longrightarrow> snd (try_block h bin d buf rs fs1) d' = fs1 d'"
  using try_block_fs [of h bin d buf rs fs1] by (auto simp add: rasterize_other)


section \<open>The temporary directory\<close>

lemma redact_pdf_run:
  assumes "resolvePdftoppmBinary h = Some bin"
    and "parseRedactions h (req_redactions req) = Inr rs" and "rs \<noteq> []"
    and "req_file req = Some buf"
    and "mkdtemp h fsys = Inr (d, fs1)"
  shows "redact_pdf h fsys req =
     (case fst (try_block h bin d buf rs fs1) of
        Inl (Thrown msg) \<Rightarrow> Response 500 (ErrorJson msg)
      | Inr sent \<Rightarrow> sent,
      rm d (snd (try_block h bin d buf rs fs1)))"
  using assms
  by (cases "try_block h bin d buf rs fs1")
     (auto simp add: redact_pdf_def split: sum.splits exn.splits)

lemma try_block_sent:
  "fst (try_block h bin d buf rs fs1) = Inr sent \<Longrightarrow> \<exists>status bd. sent = Response status bd"
  by (auto simp add: try_block_def Let_def split: sum.splits prod.splits option.splits if_splits)

lemma rm_restores:
  assumes "mkdtemp h fsys = Inr (d, fs1)"
  shows "rm d (snd (try_block h bin d buf rs fs1)) = fsys"
proof
  fix d'
  from assms have f: "fsys d = None" "fs1 = fsys(d \<mapsto> [])" by (auto dest: mkdtemp_fresh)
  show "rm d (snd (try_block h bin d buf rs fs1)) d' = fsys d'"
  proof (cases "d' = d")
    case True
    then show ?thesis by (simp add: rm_def f(1))
  next
    case False
    then show ?thesis by (simp add: rm_def try_block_other f(2))
  qed
qed

lemma sample_mkdtemp:
  "mkdtemp sample_host Map.empty = Inr (''/tmp/pdf-toolkit-Ab12Cd'', [''/tmp/pdf-toolkit-Ab12Cd'' \<mapsto> []])"
  by (simp add: mkdtemp_def sample_host_def Let_def)

text \<open>
  Claim C9.  Once \<open>mkdtemp\<close> has made the working directory, the handler always completes
  with a response (the one sent in \<open>try\<close>, or 500 from \<open>catch\<close> when something threw), and
  afterwards the directory does not exist: the file system is again what it was before the
  request.
\<close>

theorem tempdir_removed_on_every_path:
  assumes "resolvePdftoppmBinary h = Some bin"
    and "parseRedactions h (req_redactions req) = Inr rs" and "rs \<noteq> []"
    and "req_file req = Some buf"
    and "mkdtemp h fsys = Inr (d, fs1)"
  shows "fs1 d = Some []
    \<and> snd (redact_pdf h fsys req) d = None
    \<and> snd (redact_pdf h fsys req) = fsys
    \<and> (\<exists>status bd. fst (redact_pdf h fsys req) = Response status bd)"
proof -
  have run: "redact_pdf h fsys req =
     (case fst (try_block h bin d buf rs fs1) of
        Inl (Thrown msg) \<Rightarrow> Response 500 (ErrorJson msg)
      | Inr sent \<Rightarrow> sent,
      rm d (snd (try_block h bin d buf rs fs1)))"
    using assms by (rule redact_pdf_run)
  have made: "fs1 d = Some []" and fresh: "fsys d = None"
    using mkdtemp_fresh [OF assms(5)] by simp_all
  have restored: "snd (redact_pdf h fsys req) = fsys"
    by (simp add: run rm_restores [OF assms(5)])
  have "\<exists>status bd. fst (redact_pdf h fsys req) = Response status bd"
  proof (cases "fst (try_block h bin d buf rs fs1)")
    case (Inl e)
    then show ?thesis by (cases e) (simp add: run)
  next
    case (Inr sent)
    then show ?thesis using try_block_sent [OF Inr] by (auto simp add: run)
  qed
  then show ?thesis using made restored fresh by simp
qed


section \<open>The output document\<close>

lemma try_block_200D:
  assumes "fst (try_block h bin d buf rs fs1) = Inr (Response 200 bd)"
  shows "\<exists>stage out. staged_bytes h buf rs = Inr stage
      \<and> fst (rasterize h bin d stage fs1) = None
      \<and> embed_pages h d (snd (rasterize h bin d stage fs1))
            (generated_names (readdir d (snd (rasterize h bin d stage fs1)))) [] = Inr out
      \<and> bd = PdfBytes (pdf_save h out)"
proof (cases "staged_bytes h buf rs")
  case (Inl e)
  then show ?thesis using assms by (simp add: try_block_def)
next
  case (Inr stage)
  obtain failure fs2 where r: "rasterize h bin d stage fs1 = (failure, fs2)"
    by (cases "rasterize h bin d stage fs1")
  show ?thesis
    using assms
    by (auto simp add: try_block_def Inr r Let_def split: option.splits sum.splits if_splits)
qed

lemma redact_200D:
  assumes "redact_pdf h fsys req = (Response 200 bd, fs')"
  shows "\<exists>bin rs buf d fs1. resolvePdftoppmBinary h = Some bin
      \<and> parseRedactions h (req_redactions req) = Inr rs \<and> rs \<noteq> []
      \<and> req_file req = Some buf \<and> mkdtemp h fsys = Inr (d, fs1)
      \<and> fst (try_block h bin d buf rs fs1) = Inr (Response 200 bd)"
  using assms
  by (auto simp add: redact_pdf_def split: option.splits sum.splits if_splits prod.splits
        exn.splits)

lemma list_all2_setD:
  "list_all2 P xs ys \<Longrightarrow> b \<in> set ys \<Longrightarrow> \<exists>a\<in>set xs. P a b"
  by (induction rule: list_all2_induct) auto

lemma page_text_image_page: "page_text (image_page jpg w ht) = []"
  by (simp add: page_text_def image_page_def)

lemma readFile_raster:
  assumes "fsys d = Some (fold (\<lambda>(n, b). write_entry n b) files [(''stage-redacted.pdf'', stage)])"
    and "readFile d name fsys = Inr jpg" and "is_raster_name name"
  shows "(name, jpg) \<in> set files"
proof -
  have "map_of (fold (\<lambda>(n, b). write_entry n b) files [(''stage-redacted.pdf'', stage)]) name
          = Some jpg"
    using assms(1,2) by (simp add: readFile_def split: option.splits)
  then have "(name, jpg) \<in> set files \<or> map_of [(''stage-redacted.pdf'', stage)] name = Some jpg"
    by (rule map_of_fold_write)
  moreover have "name \<noteq> ''stage-redacted.pdf''"
    using assms(3) stage_name_no_raster by blast
  ultimately show ?thesis by simp
qed

text \<open>
  Claim C1.  Whenever the handler answers 200, the body is the saved form of a document
  each of whose pages is one image page: the page has the pixel size of a JPEG that the
  rasterizer wrote for the staged document and holds nothing but that image, drawn from the
  origin over the whole page.  No operation of the uploaded document is in it, and the text
  extracted from each page is empty.
\<close>

theorem output_pages_are_rasters:
  assumes "redact_pdf h fsys req = (Response 200 bd, fs')"
  shows "\<exists>bin buf rs stage files out.
      resolvePdftoppmBinary h = Some bin \<and> req_file req = Some buf
      \<and> parseRedactions h (req_redactions req) = Inr rs
      \<and> staged_bytes h buf rs = Inr stage
      \<and> exec_pdftoppm h bin stage = (files, None)
      \<and> bd = PdfBytes (pdf_save h out)
      \<and> (\<forall>pg\<in>set out. page_text pg = [] \<and>
            (\<exists>name jpg w ht. (name, jpg) \<in> set files \<and> embedJpg h jpg = Inr (w, ht)
               \<and> pg = \<lparr>page_width = of_nat w, page_height = of_nat ht,
                        page_ops = [DrawImage jpg 0 0 (of_nat w) (of_nat ht)]\<rparr>))"
proof -
  from redact_200D [OF assms] obtain bin rs buf d fs1 where
      bin: "resolvePdftoppmBinary h = Some bin"
      and rs: "parseRedactions h (req_redactions req) = Inr rs"
      and buf: "req_file req = Some buf" and mk: "mkdtemp h fsys = Inr (d, fs1)"
      and tb: "fst (try_block h bin d buf rs fs1) = Inr (Response 200 bd)"
    by blast
  from try_block_200D [OF tb] obtain stage out where
      st: "staged_bytes h buf rs = Inr stage"
      and ok: "fst (rasterize h bin d stage fs1) = None"
      and em: "embed_pages h d (snd (rasterize h bin d stage fs1))
            (generated_names (readdir d (snd (rasterize h bin d stage fs1)))) [] = Inr out"
      and bd: "bd = PdfBytes (pdf_save h out)"
    by blast
  define fs2 where "fs2 = snd (rasterize h bin d stage fs1)"
  obtain files failure where ex: "exec_pdftoppm h bin stage = (files, failure)"
    by (cases "exec_pdftoppm h bin stage")
  have made: "fs1 d = Some []" using mkdtemp_fresh [OF mk] by simp
  have "failure = None" using rasterize_result(1) [where fsa = fs1 and d = d, OF made ex] ok by simp
  then have ex': "exec_pdftoppm h bin stage = (files, None)" using ex by simp
  have dir: "fs2 d = Some (fold (\<lambda>(n, b). write_entry n b) files [(''stage-redacted.pdf'', stage)])"
    unfolding fs2_def by (rule rasterize_result(2) [where fsa = fs1 and d = d, OF made ex])
  from embed_pages_result [OF em] obtain ps where out: "out = ps"
      and all: "list_all2 (\<lambda>name pg. \<exists>jpg w ht. readFile d name fs2 = Inr jpg
                    \<and> embedJpg h jpg = Inr (w, ht) \<and> pg = image_page jpg w ht)
                  (generated_names (readdir d fs2)) ps"
    unfolding fs2_def by auto
  have "page_text pg = [] \<and>
            (\<exists>name jpg w ht. (name, jpg) \<in> set files \<and> embedJpg h jpg = Inr (w, ht)
               \<and> pg = \<lparr>page_width = of_nat w, page_height = of_nat ht,
                        page_ops = [DrawImage jpg 0 0 (of_nat w) (of_nat ht)]\<rparr>)"
    if "pg \<in> set out" for pg
  proof -
    from list_all2_setD [OF all] that out obtain name jpg w ht where
        n: "name \<in> set (generated_names (readdir d fs2))"
        and r: "readFile d name fs2 = Inr jpg" and e: "embedJpg h jpg = Inr (w, ht)"
        and pg: "pg = image_page jpg w ht"
      by blast
    have "is_raster_name name" using n by (simp add: generated_names_def set_js_sort)
    with dir r have "(name, jpg) \<in> set files" by (rule readFile_raster)
    then show ?thesis using e pg page_text_image_page [of jpg w ht]
      by (auto simp add: image_page_def)
  qed
  then show ?thesis using bin buf rs st ex' bd by blast
qed

lemma raster_dir_names:
  assumes "distinct (map fst files)" and "\<forall>n\<in>set (map fst files). is_raster_name n"
  shows "fold (\<lambda>(n, b). write_entry n b) files [(''stage-redacted.pdf'', stage)] =
           (''stage-redacted.pdf'', stage) # files"
proof -
  have "''stage-redacted.pdf'' \<notin> fst ` set files"
    using assms(2) stage_name_no_raster by auto
  then have "fst ` set files \<inter> fst ` set [(''stage-redacted.pdf'', stage)] = {}" by simp
  with assms(1) have "fold (\<lambda>(n, b). write_entry n b) files [(''stage-redacted.pdf'', stage)] =
      [(''stage-redacted.pdf'', stage)] @ files"
    by (rule fold_write_new)
  then show ?thesis by simp
qed

lemma mset_js_insert: "mset (js_insert cmp a bs) = add_mset a (mset bs)"
  by (induction bs) auto

lemma mset_js_sort: "mset (js_sort cmp xs) = mset xs"
  by (induction xs) (simp_all add: js_sort_def mset_js_insert)

lemma generated_of_raster_dir:
  assumes "fsys d = Some ((''stage-redacted.pdf'', stage) # files)"
    and "\<forall>n\<in>set (map fst files). is_raster_name n"
  shows "mset (generated_names (readdir d fsys)) = mset (map fst files)"
proof -
  have "filter_mset is_raster_name (mset (map fst files)) = mset (map fst files)"
    using assms(2) by (simp add: filter_mset_eq_conv)
  then show ?thesis
    by (simp add: generated_names_def readdir_def assms(1) stage_name_no_raster mset_js_sort)
qed

lemma staged_bytes_Inr:
  "pdf_load h buf = Inr source \<Longrightarrow> apply_rules source rs = Inr staged \<Longrightarrow>
     staged_bytes h buf rs = Inr (pdf_save h staged)"
  by (simp add: staged_bytes_def)

lemma page_count_of_200:
  assumes bin: "resolvePdftoppmBinary h = Some bin" and buf: "req_file req = Some buf"
    and load: "pdf_load h buf = Inr source"
    and rs: "parseRedactions h (req_redactions req) = Inr rs"
    and staged: "apply_rules source rs = Inr staged"
    and ex: "exec_pdftoppm h bin (pdf_save h staged) = (files, failure)"
    and one: "length files = length staged"
    and dist: "distinct (map fst files)"
    and names: "\<forall>n\<in>set (map fst files). is_raster_name n"
    and resp: "redact_pdf h fsys req = (Response 200 bd, fs')"
  shows "\<exists>out. bd = PdfBytes (pdf_save h out) \<and> length out = length source"
proof -
  from redact_200D [OF resp] bin rs buf obtain d fs1 where
      mk: "mkdtemp h fsys = Inr (d, fs1)"
      and tb: "fst (try_block h bin d buf rs fs1) = Inr (Response 200 bd)"
    by auto
  have st: "staged_bytes h buf rs = Inr (pdf_save h staged)"
    using load staged by (rule staged_bytes_Inr)
  from try_block_200D [OF tb] st obtain out where
      em: "embed_pages h d (snd (rasterize h bin d (pdf_save h staged) fs1))
            (generated_names (readdir d (snd (rasterize h bin d (pdf_save h staged) fs1)))) []
            = Inr out"
      and bd: "bd = PdfBytes (pdf_save h out)"
    by auto
  define fs2 where "fs2 = snd (rasterize h bin d (pdf_save h staged) fs1)"
  have made: "fs1 d = Some []" using mkdtemp_fresh [OF mk] by simp
  have "fs2 d = Some (fold (\<lambda>(n, b). write_entry n b) files
                        [(''stage-redacted.pdf'', pdf_save h staged)])"
    unfolding fs2_def by (rule rasterize_result(2) [where fsa = fs1 and d = d, OF made ex])
  then have dir: "fs2 d = Some ((''stage-redacted.pdf'', pdf_save h staged) # files)"
    by (simp only: raster_dir_names [OF dist names])
  have gm: "mset (generated_names (readdir d fs2)) = mset (map fst files)"
    using dir names by (rule generated_of_raster_dir)
  have gen: "length (generated_names (readdir d fs2)) = length files"
    using mset_eq_length [OF gm] by simp
  from embed_pages_result [OF em] have "length out = length (generated_names (readdir d fs2))"
    unfolding fs2_def by (auto dest: list_all2_lengthD)
  then have "length out = length files" by (simp add: gen)
  then have "length out = length source"
    using one apply_rules_length [OF staged] by simp
  then show ?thesis using bd by blast
qed

lemma redact_pdf_success:
  assumes bin: "resolvePdftoppmBinary h = Some bin" and buf: "req_file req = Some buf"
    and load: "pdf_load h buf = Inr source" and nonempty: "source \<noteq> []"
    and rs: "parseRedactions h (req_redactions req) = Inr rs" and rules: "rs \<noteq> []"
    and staged: "apply_rules source rs = Inr staged"
    and mk: "mkdtemp h fsys = Inr (d, fs1)"
    and ex: "exec_pdftoppm h bin (pdf_save h staged) = (files, None)"
    and one: "length files = length staged"
    and dist: "distinct (map fst files)"
    and names: "\<forall>n\<in>set (map fst files). is_raster_name n"
    and jpgs: "\<forall>(n, jpg)\<in>set files. \<exists>w ht. embedJpg h jpg = Inr (w, ht)"
  shows "\<exists>out. redact_pdf h fsys req = (Response 200 (PdfBytes (pdf_save h out)), fsys)
           \<and> length out = length source"
proof -
  define stage where "stage = pdf_save h staged"
  define fs2 where "fs2 = snd (rasterize h bin d stage fs1)"
  have st: "staged_bytes h buf rs = Inr stage"
    unfolding stage_def using load staged by (rule staged_bytes_Inr)
  have made: "fs1 d = Some []" using mkdtemp_fresh [OF mk] by simp
  have ex': "exec_pdftoppm h bin stage = (files, None)" using ex by (simp add: stage_def)
  have ok: "fst (rasterize h bin d stage fs1) = None"
    by (rule rasterize_result(1) [where fsa = fs1 and d = d, OF made ex'])
  have "fs2 d = Some (fold (\<lambda>(n, b). write_entry n b) files [(''stage-redacted.pdf'', stage)])"
    unfolding fs2_def by (rule rasterize_result(2) [where fsa = fs1 and d = d, OF made ex'])
  then have dir: "fs2 d = Some ((''stage-redacted.pdf'', stage) # files)"
    by (simp only: raster_dir_names [OF dist names])
  have gm: "mset (generated_names (readdir d fs2)) = mset (map fst files)"
    using dir names by (rule generated_of_raster_dir)
  have gen: "length (generated_names (readdir d fs2)) = length files"
    using mset_eq_length [OF gm] by simp
  have gset: "set (generated_names (readdir d fs2)) = fst ` set files"
    using mset_eq_setD [OF gm] by simp
  have len: "length files = length source"
    using one apply_rules_length [OF staged] by simp
  then have "files \<noteq> []" using nonempty by auto
  then have gen_ne: "generated_names (readdir d fs2) \<noteq> []"
    using gen by auto
  have "\<exists>jpg w ht. readFile d name fs2 = Inr jpg \<and> embedJpg h jpg = Inr (w, ht)"
    if "name \<in> set (generated_names (readdir d fs2))" for name
  proof -
    from that have "name \<in> fst ` set files" by (simp add: gset)
    then obtain jpg where m: "map_of files name = Some jpg"
      by (metis map_of_eq_None_iff not_Some_eq)
    then have "(name, jpg) \<in> set files" by (rule map_of_SomeD)
    then obtain w ht where "embedJpg h jpg = Inr (w, ht)" using jpgs by blast
    moreover have "name \<noteq> ''stage-redacted.pdf''"
      using \<open>name \<in> fst ` set files\<close> names stage_name_no_raster by auto
    then have "readFile d name fs2 = Inr jpg" by (simp add: readFile_def dir m)
    ultimately show ?thesis by blast
  qed
  then obtain out where em: "embed_pages h d fs2 (generated_names (readdir d fs2)) [] = Inr out"
    using embed_pages_ok [of "generated_names (readdir d fs2)" d fs2 h "[]"] by blast
  from embed_pages_result [OF em] have "length out = length (generated_names (readdir d fs2))"
    by (auto dest: list_all2_lengthD)
  then have lo: "length out = length source" by (simp add: gen len)
  obtain failure fsr where r: "rasterize h bin d stage fs1 = (failure, fsr)"
    by (cases "rasterize h bin d stage fs1")
  have "failure = None" and "fsr = fs2" using ok r by (simp_all add: fs2_def)
  then have "fst (try_block h bin d buf rs fs1) = Inr (Response 200 (PdfBytes (pdf_save h out)))"
    using r em gen_ne by (simp add: try_block_def st Let_def)
  then have "redact_pdf h fsys req = (Response 200 (PdfBytes (pdf_save h out)), fsys)"
    by (simp add: redact_pdf_run [OF bin rs rules buf mk] rm_restores [OF mk])
  then show ?thesis using lo by blast
qed

lemma in_spec_ranges_page:
  assumes "in_spec_ranges r"
  shows "\<exists>n. page r = Fin (of_nat n) \<and> 1 \<le> n"
proof -
  from assms obtain p where p: "page r = Fin p" "of_int \<lfloor>p\<rfloor> = p" "1 \<le> p"
    unfolding in_spec_ranges_def by (simp split: jsnum.splits prod.splits)
  have "0 \<le> \<lfloor>p\<rfloor>" using p(3) by simp
  then have "(of_nat (nat \<lfloor>p\<rfloor>) :: rat) = of_int \<lfloor>p\<rfloor>" by simp
  then have "page r = Fin (of_nat (nat \<lfloor>p\<rfloor>))" using p(1,2) by (simp only:)
  moreover have "1 \<le> nat \<lfloor>p\<rfloor>" using p(3) by (simp add: le_nat_iff)
  ultimately show ?thesis by blast
qed

lemma apply_rule_valid:
  assumes "in_spec_ranges r" and "length source \<le> 2 ^ 53"
  shows "\<exists>staged. apply_rule source r = Inr staged"
proof -
  from in_spec_ranges_page [OF assms(1)] obtain n where n: "page r = Fin (of_nat n)" "1 \<le> n"
    by blast
  show ?thesis
  proof (cases "n \<le> length source")
    case True
    with n assms(2) show ?thesis by (auto dest: apply_rule_in_range)
  next
    case False
    then have "length source < n" by simp
    with n(1) have "apply_rule source r = Inr source"
      using assms(2) by (rule apply_rule_beyond)
    then show ?thesis by blast
  qed
qed

lemma apply_rules_valid:
  assumes "\<forall>r\<in>set rs. in_spec_ranges r" and "length source \<le> 2 ^ 53"
  shows "\<exists>staged. apply_rules source rs = Inr staged"
  using assms
proof (induction rs arbitrary: source)
  case Nil
  then show ?case by simp
next
  case (Cons r rs)
  then obtain s1 where s1: "apply_rule source r = Inr s1"
    using apply_rule_valid [of r source] by auto
  then have "length s1 \<le> 2 ^ 53" using Cons.prems(2) by (simp add: apply_rule_length)
  then obtain staged where "apply_rules s1 rs = Inr staged"
    using Cons.IH [of s1] Cons.prems(1) by auto
  then show ?case by (simp add: s1)
qed

text \<open>
  Claim C2.  For a loaded source document and a non-empty list of valid rules, drawing
  succeeds and keeps the page count.  If the rasterizer then writes one JPEG per page of the
  staged document, named \<open>redacted-page-<number>.jpg\<close>, every 200 response carries a
  document with as many pages as the source; and the response is 200 when the source has a
  page, \<open>mkdtemp\<close> succeeds and \<open>embedJpg\<close> accepts the files.
\<close>

theorem output_page_count:
  assumes bin: "resolvePdftoppmBinary h = Some bin" and buf: "req_file req = Some buf"
    and load: "pdf_load h buf = Inr source" and len: "length source < 2 ^ 32"
    and rs: "parseRedactions h (req_redactions req) = Inr rs" and rules: "rs \<noteq> []"
    and valid: "\<forall>r\<in>set rs. in_spec_ranges r"
  shows "\<exists>staged. apply_rules source rs = Inr staged \<and> length staged = length source \<and>
    (\<forall>files. exec_pdftoppm h bin (pdf_save h staged) = (files, None)
        \<and> length files = length staged \<and> distinct (map fst files)
        \<and> (\<forall>n\<in>set (map fst files). is_raster_name n) \<longrightarrow>
      (\<forall>bd fs'. redact_pdf h fsys req = (Response 200 bd, fs') \<longrightarrow>
          (\<exists>out. bd = PdfBytes (pdf_save h out) \<and> length out = length source))
      \<and> (source \<noteq> [] \<and> (\<exists>d fs1. mkdtemp h fsys = Inr (d, fs1))
          \<and> (\<forall>(n, jpg)\<in>set files. \<exists>w ht. embedJpg h jpg = Inr (w, ht)) \<longrightarrow>
          (\<exists>out. redact_pdf h fsys req = (Response 200 (PdfBytes (pdf_save h out)), fsys)
             \<and> length out = length source)))"
proof -
  have "length source \<le> 2 ^ 32" using len by simp
  then have "length source \<le> 2 ^ 53" by (rule order_trans) simp
  with valid obtain staged where staged: "apply_rules source rs = Inr staged"
    using apply_rules_valid by blast
  have "(\<forall>bd fs'. redact_pdf h fsys req = (Response 200 bd, fs') \<longrightarrow>
          (\<exists>out. bd = PdfBytes (pdf_save h out) \<and> length out = length source))
      \<and> (source \<noteq> [] \<and> (\<exists>d fs1. mkdtemp h fsys = Inr (d, fs1))
          \<and> (\<forall>(n, jpg)\<in>set files. \<exists>w ht. embedJpg h jpg = Inr (w, ht)) \<longrightarrow>
          (\<exists>out. redact_pdf h fsys req = (Response 200 (PdfBytes (pdf_save h out)), fsys)
             \<and> length out = length source))"
    if f: "exec_pdftoppm h bin (pdf_save h staged) = (files, None)
        \<and> length files = length staged \<and> distinct (map fst files)
        \<and> (\<forall>n\<in>set (map fst files). is_raster_name n)" for files
  proof -
    from f have f1: "exec_pdftoppm h bin (pdf_save h staged) = (files, None)"
        and f2: "length files = length staged" and f3: "distinct (map fst files)"
        and f4: "\<forall>n\<in>set (map fst files). is_raster_name n"
      by simp_all
    have "\<exists>out. bd = PdfBytes (pdf_save h out) \<and> length out = length source"
      if resp: "redact_pdf h fsys req = (Response 200 bd, fs')" for bd fs'
      by (rule page_count_of_200 [OF bin buf load rs staged f1 f2 f3 f4 resp])
    moreover have "\<exists>out. redact_pdf h fsys req = (Response 200 (PdfBytes (pdf_save h out)), fsys)
             \<and> length out = length source"
      if a: "source \<noteq> [] \<and> (\<exists>d fs1. mkdtemp h fsys = Inr (d, fs1))
          \<and> (\<forall>(n, jpg)\<in>set files. \<exists>w ht. embedJpg h jpg = Inr (w, ht))"
    proof -
      from a obtain d fs1 where mk: "mkdtemp h fsys = Inr (d, fs1)" by blast
      from a have ne: "source \<noteq> []"
          and jpgs: "\<forall>(n, jpg)\<in>set files. \<exists>w ht. embedJpg h jpg = Inr (w, ht)"
        by simp_all
      show ?thesis
        by (rule redact_pdf_success [OF bin buf load ne rs rules staged mk f1 f2 f3 f4 jpgs])
    qed
    ultimately show ?thesis by blast
  qed
  then show ?thesis using staged apply_rules_length [OF staged] by blast
qed


section \<open>Rules for pages the document does not have\<close>

lemma staged_bytes_skip:
  assumes "page entry = Fin (of_nat p)" and "length source < p" and "length source \<le> 2 ^ 53"
    and "pdf_load h buf = Inr source"
  shows "staged_bytes h buf (rs1 @ entry # rs2) = staged_bytes h buf (rs1 @ rs2)"
  by (simp add: staged_bytes_def assms(4) apply_rules_skip [OF assms(1-3)])

lemma try_block_cong:
  "staged_bytes h buf rs = staged_bytes h buf rs' \<Longrightarrow>
     try_block h bin d buf rs fsa = try_block h bin d buf rs' fsa"
  by (simp add: try_block_def)

lemma redact_pdf_cong:
  assumes "req_file req = req_file req'"
    and "parseRedactions h (req_redactions req) = Inr rs"
    and "parseRedactions h (req_redactions req') = Inr rs'"
    and "rs \<noteq> []" and "rs' \<noteq> []"
    and "\<And>buf. req_file req = Some buf \<Longrightarrow> staged_bytes h buf rs = staged_bytes h buf rs'"
  shows "redact_pdf h fsys req = redact_pdf h fsys req'"
proof (cases "req_file req")
  case None
  moreover from None assms(1) have "req_file req' = None" by simp
  ultimately show ?thesis using assms(2,3)
    by (cases "resolvePdftoppmBinary h") (simp_all add: redact_pdf_def)
next
  case (Some buf)
  then have t: "\<And>bin d fsa. try_block h bin d buf rs fsa = try_block h bin d buf rs' fsa"
    using assms(6) by (intro try_block_cong) simp
  from Some assms(1) have "req_file req' = Some buf" by simp
  with Some show ?thesis
    using assms(2-5)
    by (cases "resolvePdftoppmBinary h"; cases "mkdtemp h fsys")
       (auto simp add: redact_pdf_def t)
qed

text \<open>
  Claim C5, as the code has it.  A rule whose page number is a whole number above the page
  count draws nothing and raises no error: the document is unchanged, the loop gives the
  same staged document with or without the rule, and the handler gives the same outcome as
  for the request without the rule, provided that request still has a rule.
\<close>

theorem out_of_range_rule_is_skipped:
  assumes "page entry = Fin (of_nat p)" and "length source < p" and "length source < 2 ^ 32"
  shows "apply_rule source entry = Inr source
    \<and> apply_rules source (earlier @ entry # later) = apply_rules source (earlier @ later)
    \<and> (req_file req = Some buf \<and> req_file req' = Some buf \<and> pdf_load h buf = Inr source
        \<and> parseRedactions h (req_redactions req) = Inr (earlier @ entry # later)
        \<and> parseRedactions h (req_redactions req') = Inr (earlier @ later)
        \<and> earlier @ later \<noteq> []
       \<longrightarrow> redact_pdf h fsys req = redact_pdf h fsys req')"
proof -
  have "length source \<le> 2 ^ 32" using assms(3) by simp
  then have l: "length source \<le> 2 ^ 53" by (rule order_trans) simp
  have a: "apply_rule source entry = Inr source"
    using assms(1,2) l by (rule apply_rule_beyond)
  have b: "apply_rules source (earlier @ entry # later) = apply_rules source (earlier @ later)"
    using assms(1,2) l by (rule apply_rules_skip)
  have c: "redact_pdf h fsys req = redact_pdf h fsys req'"
    if h: "req_file req = Some buf \<and> req_file req' = Some buf \<and> pdf_load h buf = Inr source
        \<and> parseRedactions h (req_redactions req) = Inr (earlier @ entry # later)
        \<and> parseRedactions h (req_redactions req') = Inr (earlier @ later)
        \<and> earlier @ later \<noteq> []"
  proof (rule redact_pdf_cong)
    show "req_file req = req_file req'" using h by simp
    show "parseRedactions h (req_redactions req) = Inr (earlier @ entry # later)" using h by simp
    show "parseRedactions h (req_redactions req') = Inr (earlier @ later)" using h by simp
    show "earlier @ entry # later \<noteq> []" by simp
    show "earlier @ later \<noteq> []" using h by simp
    show "staged_bytes h b (earlier @ entry # later) = staged_bytes h b (earlier @ later)"
      if "req_file req = Some b" for b
    proof -
      from that h have "pdf_load h b = Inr source" by simp
      with assms(1,2) l show ?thesis by (rule staged_bytes_skip)
    qed
  qed
  from a b c show ?thesis by blast
qed


section \<open>Runs on the sample host\<close>

text \<open>
  The sample host has \<open>pdftoppm\<close> at \<open>/usr/bin/pdftoppm\<close>, loads the one-page document
  \<open>sample_doc\<close> (612 by 792, with text) from the bytes \<open>%PDF-sample\<close>, and its rasterizer
  writes \<open>redacted-page-1.jpg\<close> for a one-page file.
\<close>

lemma sample_load: "pdf_load sample_host ''%PDF-sample'' = Inr sample_doc"
  by (simp add: sample_host_def)

lemma sample_raster_name: "is_raster_name ''redacted-page-1.jpg''"
  by code_simp

lemma sample_save: "length d = 1 \<Longrightarrow> pdf_save sample_host d = ''P''"
  by (simp add: sample_host_def)

lemma sample_exec:
  "length d = 1 \<Longrightarrow>
     exec_pdftoppm sample_host bin (pdf_save sample_host d) =
       ([(''redacted-page-1.jpg'', ''JPEG-1'')], None)"
  by (simp add: sample_host_def)

lemma sample_embed: "embedJpg sample_host ''JPEG-1'' = Inr (1870, 2420)"
  by (simp add: sample_host_def)

lemma sample_parse:
  "parseRedactions sample_host (Parsed (JArr [sample_entry])) = Inr [sample_rule]"
  "parseRedactions sample_host (Parsed (JArr [far_entry])) = Inr [far_rule]"
  "parseRedactions sample_host (Parsed (JArr [sample_entry, far_entry])) =
     Inr [sample_rule, far_rule]"
  by code_simp+

lemma sample_valid: "in_spec_ranges sample_rule" "in_spec_ranges far_rule"
  by code_simp+

lemma sample_run_200:
  assumes "parseRedactions sample_host (Parsed (JArr entries)) = Inr rs" and "rs \<noteq> []"
    and "apply_rules sample_doc rs = Inr staged"
  shows "redact_pdf sample_host Map.empty (sample_request ''%PDF-sample'' entries) =
     (Response 200 (PdfBytes ''P''), Map.empty)"
proof -
  let ?req = "sample_request ''%PDF-sample'' entries"
  have len: "length staged = 1"
    using apply_rules_length [OF assms(3)] by (simp add: sample_doc_def)
  have "\<exists>out. redact_pdf sample_host Map.empty ?req =
            (Response 200 (PdfBytes (pdf_save sample_host out)), Map.empty)
          \<and> length out = length sample_doc"
  proof (rule redact_pdf_success [OF sample_resolve _ sample_load _ _ assms(2,3) sample_mkdtemp
        sample_exec [OF len]])
    show "req_file ?req = Some ''%PDF-sample''" by (simp add: sample_request_def)
    show "sample_doc \<noteq> []" by (simp add: sample_doc_def)
    show "parseRedactions sample_host (req_redactions ?req) = Inr rs"
      using assms(1) by (simp add: sample_request_def)
    show "length [(''redacted-page-1.jpg'', ''JPEG-1'')] = length staged" using len by simp
    show "distinct (map fst [(''redacted-page-1.jpg'', ''JPEG-1'')])" by simp
    show "\<forall>n\<in>set (map fst [(''redacted-page-1.jpg'', ''JPEG-1'')]). is_raster_name n"
      by (simp add: sample_raster_name)
    show "\<forall>(n, jpg)\<in>set [(''redacted-page-1.jpg'', ''JPEG-1'')].
            \<exists>w ht. embedJpg sample_host jpg = Inr (w, ht)"
      by (simp add: sample_embed)
  qed
  then obtain out where r: "redact_pdf sample_host Map.empty ?req =
            (Response 200 (PdfBytes (pdf_save sample_host out)), Map.empty)"
      and "length out = 1"
    by (auto simp add: sample_doc_def)
  then show ?thesis by (simp add: sample_save)
qed

lemma sample_skip: "apply_rule sample_doc far_rule = Inr sample_doc"
  by (rule apply_rule_beyond [where p = 5]) (simp_all add: sample_doc_def far_rule_def)

lemma sample_draw: "\<exists>staged. apply_rules sample_doc [sample_rule] = Inr staged"
  by (rule apply_rules_valid) (simp_all add: sample_valid sample_doc_def)

lemma sample_redacted:
  "redact_pdf sample_host Map.empty (sample_request ''%PDF-sample'' [sample_entry]) =
     (Response 200 (PdfBytes ''P''), Map.empty)"
  using sample_draw sample_parse(1) by (auto intro: sample_run_200)

text \<open>
  Redacting the sample document with the sample rule: the 200 response is made of raster
  pages only (C1) and has the page count of the source (C2).
\<close>

theorem output_pages_are_rasters_witness:
  "\<exists>bin buf rs stage files out.
      resolvePdftoppmBinary sample_host = Some bin
      \<and> req_file (sample_request ''%PDF-sample'' [sample_entry]) = Some buf
      \<and> parseRedactions sample_host
           (req_redactions (sample_request ''%PDF-sample'' [sample_entry])) = Inr rs
      \<and> staged_bytes sample_host buf rs = Inr stage
      \<and> exec_pdftoppm sample_host bin stage = (files, None)
      \<and> PdfBytes ''P'' = PdfBytes (pdf_save sample_host out)
      \<and> (\<forall>pg\<in>set out. page_text pg = [] \<and>
            (\<exists>name jpg w ht. (name, jpg) \<in> set files \<and> embedJpg sample_host jpg = Inr (w, ht)
               \<and> pg = \<lparr>page_width = of_nat w, page_height = of_nat ht,
                        page_ops = [DrawImage jpg 0 0 (of_nat w) (of_nat ht)]\<rparr>))"
  using sample_redacted by (rule output_pages_are_rasters)

theorem output_page_count_witness:
  "\<exists>out. redact_pdf sample_host Map.empty (sample_request ''%PDF-sample'' [sample_entry]) =
            (Response 200 (PdfBytes (pdf_save sample_host out)), Map.empty)
          \<and> length out = length sample_doc"
proof -
  let ?req = "sample_request ''%PDF-sample'' [sample_entry]"
  let ?files = "[(''redacted-page-1.jpg'', ''JPEG-1'')]"
  have p: "parseRedactions sample_host (req_redactions ?req) = Inr [sample_rule]"
    using sample_parse(1) by (simp add: sample_request_def)
  have f: "req_file ?req = Some ''%PDF-sample''" by (simp add: sample_request_def)
  have l: "length sample_doc < 2 ^ 32" by (simp add: sample_doc_def)
  have n: "[sample_rule] \<noteq> []" by simp
  have v: "\<forall>r\<in>set [sample_rule]. in_spec_ranges r" by (simp add: sample_valid)
  from output_page_count [OF sample_resolve f sample_load l p n v, of Map.empty]
  obtain staged where s: "length staged = length sample_doc"
    and all: "\<forall>files. exec_pdftoppm sample_host ''/usr/bin/pdftoppm'' (pdf_save sample_host staged) =
          (files, None)
        \<and> length files = length staged \<and> distinct (map fst files)
        \<and> (\<forall>n\<in>set (map fst files). is_raster_name n) \<longrightarrow>
      (\<forall>bd fs'. redact_pdf sample_host Map.empty ?req = (Response 200 bd, fs') \<longrightarrow>
          (\<exists>out. bd = PdfBytes (pdf_save sample_host out) \<and> length out = length sample_doc))
      \<and> (sample_doc \<noteq> [] \<and> (\<exists>d fs1. mkdtemp sample_host Map.empty = Inr (d, fs1))
          \<and> (\<forall>(n, jpg)\<in>set files. \<exists>w ht. embedJpg sample_host jpg = Inr (w, ht)) \<longrightarrow>
          (\<exists>out. redact_pdf sample_host Map.empty ?req =
                    (Response 200 (PdfBytes (pdf_save sample_host out)), Map.empty)
             \<and> length out = length sample_doc))"
    by (elim exE conjE)
  have len: "length staged = 1" using s by (simp add: sample_doc_def)
  have pre: "exec_pdftoppm sample_host ''/usr/bin/pdftoppm'' (pdf_save sample_host staged) =
          (?files, None)
        \<and> length ?files = length staged \<and> distinct (map fst ?files)
        \<and> (\<forall>n\<in>set (map fst ?files). is_raster_name n)"
    using sample_exec [OF len] len by (simp add: sample_raster_name)
  from all [rule_format, OF pre]
  have imp: "sample_doc \<noteq> [] \<and> (\<exists>d fs1. mkdtemp sample_host Map.empty = Inr (d, fs1))
          \<and> (\<forall>(n, jpg)\<in>set ?files. \<exists>w ht. embedJpg sample_host jpg = Inr (w, ht)) \<longrightarrow>
          (\<exists>out. redact_pdf sample_host Map.empty ?req =
                    (Response 200 (PdfBytes (pdf_save sample_host out)), Map.empty)
             \<and> length out = length sample_doc)"
    by (rule conjunct2)
  have "sample_doc \<noteq> []" by (simp add: sample_doc_def)
  moreover have "\<exists>d fs1. mkdtemp sample_host Map.empty = Inr (d, fs1)"
    using sample_mkdtemp by blast
  moreover have "\<forall>(n, jpg)\<in>set ?files. \<exists>w ht. embedJpg sample_host jpg = Inr (w, ht)"
    by (simp add: sample_embed)
  ultimately show ?thesis using imp by (simp only: simp_thms)
qed

text \<open>
  An upload that is not a PDF makes \<open>PDFDocument.load\<close> throw after the directory was made;
  the directory is gone afterwards (C9).
\<close>

theorem tempdir_removed_on_every_path_witness:
  "snd (redact_pdf sample_host Map.empty (sample_request ''not a PDF'' [sample_entry]))
     ''/tmp/pdf-toolkit-Ab12Cd'' = None
   \<and> snd (redact_pdf sample_host Map.empty (sample_request ''not a PDF'' [sample_entry]))
       = Map.empty
   \<and> (\<exists>status bd. fst (redact_pdf sample_host Map.empty
                           (sample_request ''not a PDF'' [sample_entry]))
        = Response status bd)"
proof -
  let ?req = "sample_request ''not a PDF'' [sample_entry]"
  have p: "parseRedactions sample_host (req_redactions ?req) = Inr [sample_rule]"
    using sample_parse(1) by (simp add: sample_request_def)
  have f: "req_file ?req = Some ''not a PDF''" by (simp add: sample_request_def)
  have n: "[sample_rule] \<noteq> []" by simp
  from tempdir_removed_on_every_path [OF sample_resolve p n f sample_mkdtemp]
  show ?thesis by simp
qed

text \<open>
  A rule for page 5 of the one-page sample changes nothing next to another rule (C5).  As
  the only rule it still lets the request through, which is then answered 200 with the
  rasterized document, while the same request without the rule is answered 400.
\<close>

theorem out_of_range_rule_is_skipped_witness:
  "apply_rule sample_doc far_rule = Inr sample_doc
   \<and> redact_pdf sample_host Map.empty (sample_request ''%PDF-sample'' [sample_entry, far_entry])
     = redact_pdf sample_host Map.empty (sample_request ''%PDF-sample'' [sample_entry])"
proof -
  have a: "page far_rule = Fin (of_nat 5)" and b: "length sample_doc < 5"
      and c: "length sample_doc < 2 ^ 32"
    by (simp_all add: sample_doc_def far_rule_def)
  from out_of_range_rule_is_skipped [OF a b c, of "[sample_rule]" "[]"
      "sample_request ''%PDF-sample'' [sample_entry, far_entry]" "''%PDF-sample''"
      "sample_request ''%PDF-sample'' [sample_entry]" sample_host Map.empty]
  show ?thesis using sample_parse sample_load by (simp add: sample_request_def)
qed

theorem only_rule_out_of_range_counterexample:
  "fst (redact_pdf sample_host Map.empty (sample_request ''%PDF-sample'' [far_entry]))
     = Response 200 (PdfBytes ''P'')
   \<and> fst (redact_pdf sample_host Map.empty (sample_request ''%PDF-sample'' []))
     = Response 400 (ErrorJson ''file and redactions are required'')"
proof -
  have a: "apply_rules sample_doc [far_rule] = Inr sample_doc"
    by (simp add: sample_skip)
  have n: "[far_rule] \<noteq> []" by simp
  have "redact_pdf sample_host Map.empty (sample_request ''%PDF-sample'' [far_entry])
     = (Response 200 (PdfBytes ''P''), Map.empty)"
    by (rule sample_run_200 [OF sample_parse(2) n a])
  moreover have "redact_pdf sample_host Map.empty (sample_request ''%PDF-sample'' [])
     = (Response 400 (ErrorJson ''file and redactions are required''), Map.empty)"
    by (simp add: redact_pdf_def sample_resolve parseRedactions_def sample_request_def)
  ultimately show ?thesis by simp
qed

end
